theory Spec2Isabelle
  imports Main "HOL-Library.Word"
begin

unbundle bit_operations_syntax

section \<open>Values crossing the facade\<close>

text \<open>
  \<^verbatim>\<open>cryptography.js\<close> is a closure of four public functions (\<^verbatim>\<open>hash\<close>, \<^verbatim>\<open>salt\<close>,
  \<^verbatim>\<open>encrypt\<close>, \<^verbatim>\<open>decrypt\<close>) and two private helpers (\<^verbatim>\<open>u8a2b64\<close>, \<^verbatim>\<open>b642u8a\<close>).
  A JavaScript string is a sequence of 16-bit code units, a \<^verbatim>\<open>Uint8Array\<close> a sequence
  of 8-bit values. The exceptions that can leave the facade are told apart by their name:
  the \<^verbatim>\<open>DOMException\<close>s \<^verbatim>\<open>InvalidCharacterError\<close> (thrown by \<^verbatim>\<open>atob\<close> and \<^verbatim>\<open>btoa\<close>; the
  specification calls this kind InvalidEncoding), \<^verbatim>\<open>DataError\<close> (thrown by
  \<^verbatim>\<open>importKey\<close>; InvalidKeyMaterial) and \<^verbatim>\<open>OperationError\<close> (thrown by \<^verbatim>\<open>deriveBits\<close>,
  and by \<^verbatim>\<open>decrypt\<close> when the tag does not verify; AuthenticationFailure), and the
  \<^verbatim>\<open>RangeError\<close> of the script engine, thrown by a call with more arguments than the
  engine accepts.
\<close>

type_synonym byte = "8 word"
type_synonym code_unit = "16 word"
type_synonym jsstring = "code_unit list"

datatype error = InvalidCharacterError | DataError | OperationError | RangeError

text \<open>
  \<^verbatim>\<open>hash\<close>, \<^verbatim>\<open>encrypt\<close> and \<^verbatim>\<open>decrypt\<close> are \<^verbatim>\<open>async\<close>: each returns a promise, which is
  fulfilled with a value, rejected with an exception, or never settles. \<^verbatim>\<open>await\<close> goes on
  with the value of a fulfilled promise and passes the other two outcomes to the caller; an
  exception thrown by a synchronous call inside an \<^verbatim>\<open>async\<close> function rejects its promise.
\<close>

datatype 'a promise = Fulfilled 'a | Rejected error | Pending

definition await :: "'a promise \<Rightarrow> ('a \<Rightarrow> 'b promise) \<Rightarrow> 'b promise" where
  "await p k = (case p of Fulfilled x \<Rightarrow> k x | Rejected e \<Rightarrow> Rejected e | Pending \<Rightarrow> Pending)"

definition try_call :: "error + 'a \<Rightarrow> ('a \<Rightarrow> 'b promise) \<Rightarrow> 'b promise" where
  "try_call r k = (case r of Inl e \<Rightarrow> Rejected e | Inr x \<Rightarrow> k x)"

text \<open>String literals of the examples: every character of an Isabelle string is one code unit.\<close>

definition js :: "string \<Rightarrow> jsstring" where
  "js s = map (\<lambda>c. of_nat (of_char c)) s"

section \<open>Base 64: the host functions \<^verbatim>\<open>btoa\<close> and \<^verbatim>\<open>atob\<close>\<close>

text \<open>
  Both are functions of the host, not of this repository. They are written here after the
  algorithms the HTML standard gives for them: \<^verbatim>\<open>btoa\<close> is the base 64 encoding of
  RFC 4648, section 4 (standard alphabet, padded with \<^verbatim>\<open>=\<close>), and throws when a code unit of
  its argument is above \<^verbatim>\<open>0xFF\<close>; \<^verbatim>\<open>atob\<close> is the forgiving decoder: it removes ASCII
  whitespace, accepts a missing padding, and does not look at the bits of the last
  character that fall outside the last byte.
\<close>

definition b64_pad :: code_unit where
  "b64_pad = 0x3D"

text \<open>The alphabet: \<^verbatim>\<open>A-Z\<close> for 0..25, \<^verbatim>\<open>a-z\<close> for 26..51, \<^verbatim>\<open>0-9\<close> for 52..61, \<^verbatim>\<open>+\<close>, \<^verbatim>\<open>/\<close>.\<close>

definition b64_char :: "nat \<Rightarrow> code_unit" where
  "b64_char i = of_nat (if i < 26 then 65 + i else if i < 52 then 71 + i
                        else if i < 62 then i - 4 else if i = 62 then 43 else 47)"

definition b64_value :: "code_unit \<Rightarrow> nat option" where
  "b64_value c = (let n = unat c in
     if 65 \<le> n \<and> n \<le> 90 then Some (n - 65)
     else if 97 \<le> n \<and> n \<le> 122 then Some (n - 71)
     else if 48 \<le> n \<and> n \<le> 57 then Some (n + 4)
     else if n = 43 then Some 62
     else if n = 47 then Some 63
     else None)"

text \<open>Three bytes make four groups of six bits; one or two trailing bytes make two or three.\<close>

fun sextets :: "nat list \<Rightarrow> nat list" where
  "sextets (a # b # c # r) =
     [a div 4, (a mod 4) * 16 + b div 16, (b mod 16) * 4 + c div 64, c mod 64] @ sextets r"
| "sextets [a, b] = [a div 4, (a mod 4) * 16 + b div 16, (b mod 16) * 4]"
| "sextets [a] = [a div 4, (a mod 4) * 16]"
| "sextets [] = []"

text \<open>
  Four groups of six bits make three bytes; of three trailing groups the last two bits
  are dropped, of two trailing groups the last four.
\<close>

fun octets :: "nat list \<Rightarrow> nat list" where
  "octets (w # x # y # z # r) =
     [(w * 4 + x div 16) mod 256, ((x mod 16) * 16 + y div 4) mod 256, ((y mod 4) * 64 + z) mod 256]
       @ octets r"
| "octets [w, x, y] = [(w * 4 + x div 16) mod 256, ((x mod 16) * 16 + y div 4) mod 256]"
| "octets [w, x] = [(w * 4 + x div 16) mod 256]"
| "octets [w] = []"
| "octets [] = []"

definition base64_encode :: "byte list \<Rightarrow> jsstring" where
  "base64_encode bs =
     map b64_char (sextets (map unat bs)) @ replicate ((3 - length bs mod 3) mod 3) b64_pad"

definition btoa :: "jsstring \<Rightarrow> error + jsstring" where
  "btoa s = (if list_ex (\<lambda>c. 0xFF < c) s then Inl InvalidCharacterError
             else Inr (base64_encode (map ucast s)))"

definition is_ascii_whitespace :: "code_unit \<Rightarrow> bool" where
  "is_ascii_whitespace c = (c = 0x09 \<or> c = 0x0A \<or> c = 0x0C \<or> c = 0x0D \<or> c = 0x20)"

text \<open>"If data ends with one or two \<^verbatim>\<open>=\<close>, remove them."\<close>

definition strip_padding :: "jsstring \<Rightarrow> jsstring" where
  "strip_padding d =
     (if 2 \<le> length d \<and> last d = b64_pad \<and> last (butlast d) = b64_pad then butlast (butlast d)
      else if d \<noteq> [] \<and> last d = b64_pad then butlast d
      else d)"

fun b64_values :: "jsstring \<Rightarrow> nat list option" where
  "b64_values [] = Some []"
| "b64_values (c # cs) =
     (case b64_value c of None \<Rightarrow> None
      | Some v \<Rightarrow> (case b64_values cs of None \<Rightarrow> None | Some vs \<Rightarrow> Some (v # vs)))"

text \<open>What is left of the argument when whitespace and padding have been removed.\<close>

definition forgiving_strip :: "jsstring \<Rightarrow> jsstring" where
  "forgiving_strip data =
     (let d = filter (\<lambda>c. \<not> is_ascii_whitespace c) data
      in if length d mod 4 = 0 then strip_padding d else d)"

definition atob :: "jsstring \<Rightarrow> error + jsstring" where
  "atob data =
     (let d = forgiving_strip data
      in if length d mod 4 = 1 then Inl InvalidCharacterError
         else (case b64_values d of
                 None \<Rightarrow> Inl InvalidCharacterError
               | Some vs \<Rightarrow> Inr (map of_nat (octets vs))))"

section \<open>The encoding helpers of the facade\<close>

text \<open>
  \<^verbatim>\<open>String.fromCharCode(...u8a)\<close> is a call with one argument for each element of the
  array. A script engine accepts only so many arguments in a call (the number is not fixed
  by the language; it is \<open>max_args\<close> here) and throws \<^verbatim>\<open>RangeError\<close> beyond. Within the
  limit the result has one code unit for each element.
\<close>

definition fromCharCode :: "nat \<Rightarrow> byte list \<Rightarrow> error + jsstring" where
  "fromCharCode max_args u8a =
     (if max_args < length u8a then Inl RangeError else Inr (map ucast u8a))"

text \<open>\<^verbatim>\<open>function u8a2b64(u8a) { return btoa(String.fromCharCode(...u8a)); }\<close>\<close>

definition u8a2b64 :: "nat \<Rightarrow> byte list \<Rightarrow> error + jsstring" where
  "u8a2b64 max_args u8a =
     (case fromCharCode max_args u8a of Inl e \<Rightarrow> Inl e | Inr s \<Rightarrow> btoa s)"

text \<open>
  \<^verbatim>\<open>[...str]\<close> builds an array, it is not a call and has no such limit. It iterates a
  string by code points: a high surrogate followed by a low
  surrogate is one element of two code units, every other code unit is an element of its own.
\<close>

definition is_high_surrogate :: "code_unit \<Rightarrow> bool" where
  "is_high_surrogate u = (0xD800 \<le> u \<and> u \<le> 0xDBFF)"

definition is_low_surrogate :: "code_unit \<Rightarrow> bool" where
  "is_low_surrogate u = (0xDC00 \<le> u \<and> u \<le> 0xDFFF)"

fun spread :: "jsstring \<Rightarrow> jsstring list" where
  "spread (u # v # r) =
     (if is_high_surrogate u \<and> is_low_surrogate v then [u, v] # spread r
      else [u] # spread (v # r))"
| "spread [u] = [[u]]"
| "spread [] = []"

text \<open>
  \<^verbatim>\<open>c.charCodeAt(0)\<close> is the first code unit of \<^verbatim>\<open>c\<close> (\<^verbatim>\<open>NaN\<close> for the empty string), and
  the \<^verbatim>\<open>Uint8Array\<close> constructor stores each number modulo 256 (\<^verbatim>\<open>NaN\<close> as 0).
\<close>

definition charCodeAt0 :: "jsstring \<Rightarrow> code_unit option" where
  "charCodeAt0 c = (case c of [] \<Rightarrow> None | u # _ \<Rightarrow> Some u)"

definition to_uint8 :: "code_unit option \<Rightarrow> byte" where
  "to_uint8 n = (case n of None \<Rightarrow> 0 | Some u \<Rightarrow> ucast u)"

text \<open>
  \<^verbatim>\<open>function b642u8a(b64) { return new Uint8Array([...atob(b64)].map(c => c.charCodeAt(0))); }\<close>
\<close>

definition b642u8a :: "jsstring \<Rightarrow> error + byte list" where
  "b642u8a b64 =
     (case atob b64 of
        Inl e \<Rightarrow> Inl e
      | Inr s \<Rightarrow> Inr (map (\<lambda>c. to_uint8 (charCodeAt0 c)) (spread s)))"


section \<open>Text encoding: the host classes \<^verbatim>\<open>TextEncoder\<close> and \<^verbatim>\<open>TextDecoder\<close>\<close>

text \<open>
  Written after the Encoding standard. \<^verbatim>\<open>new TextEncoder().encode(s)\<close> first turns \<^verbatim>\<open>s\<close>
  into a sequence of scalar values, a surrogate that is not part of a pair becoming U+FFFD,
  and then writes each scalar value in UTF-8.
\<close>

definition is_surrogate :: "code_unit \<Rightarrow> bool" where
  "is_surrogate u = (0xD800 \<le> u \<and> u \<le> 0xDFFF)"

definition pair_code_point :: "code_unit \<Rightarrow> code_unit \<Rightarrow> nat" where
  "pair_code_point hi lo = 0x10000 + (unat hi - 0xD800) * 0x400 + (unat lo - 0xDC00)"

definition unit_code_point :: "code_unit \<Rightarrow> nat" where
  "unit_code_point u = (if is_surrogate u then 0xFFFD else unat u)"

fun scalar_values :: "jsstring \<Rightarrow> nat list" where
  "scalar_values (u # v # r) =
     (if is_high_surrogate u \<and> is_low_surrogate v then pair_code_point u v # scalar_values r
      else unit_code_point u # scalar_values (v # r))"
| "scalar_values [u] = [unit_code_point u]"
| "scalar_values [] = []"

definition utf8_bytes :: "nat \<Rightarrow> nat list" where
  "utf8_bytes cp =
     (if cp < 0x80 then [cp]
      else if cp < 0x800 then [0xC0 + cp div 64, 0x80 + cp mod 64]
      else if cp < 0x10000 then [0xE0 + cp div 4096, 0x80 + cp div 64 mod 64, 0x80 + cp mod 64]
      else [0xF0 + cp div 262144, 0x80 + cp div 4096 mod 64, 0x80 + cp div 64 mod 64,
            0x80 + cp mod 64])"

definition TextEncoder_encode :: "jsstring \<Rightarrow> byte list" where
  "TextEncoder_encode s = map of_nat (concat (map utf8_bytes (scalar_values s)))"

text \<open>
  The UTF-8 decoder of the standard keeps a code point under construction, the number of
  continuation bytes seen and needed, and the range the next byte must lie in. A byte
  outside that range yields U+FFFD and is then read again as the first byte of a sequence;
  so is an input that ends inside a sequence. (\<^verbatim>\<open>new TextDecoder()\<close> is not \<^verbatim>\<open>fatal\<close>.)
\<close>

record utf8_state =
  code_point :: nat
  bytes_seen :: nat
  bytes_needed :: nat
  lower_boundary :: nat
  upper_boundary :: nat

definition utf8_initial :: utf8_state where
  "utf8_initial = \<lparr>code_point = 0, bytes_seen = 0, bytes_needed = 0,
                    lower_boundary = 0x80, upper_boundary = 0xBF\<rparr>"

text \<open>The first byte of a sequence: what it emits and the state it leaves.\<close>

definition utf8_lead :: "nat \<Rightarrow> nat list \<times> utf8_state" where
  "utf8_lead b =
     (if b \<le> 0x7F then ([b], utf8_initial)
      else if 0xC2 \<le> b \<and> b \<le> 0xDF then
        ([], utf8_initial\<lparr>bytes_needed := 1, code_point := b mod 32\<rparr>)
      else if 0xE0 \<le> b \<and> b \<le> 0xEF then
        ([], utf8_initial\<lparr>lower_boundary := (if b = 0xE0 then 0xA0 else 0x80),
                          upper_boundary := (if b = 0xED then 0x9F else 0xBF),
                          bytes_needed := 2, code_point := b mod 16\<rparr>)
      else if 0xF0 \<le> b \<and> b \<le> 0xF4 then
        ([], utf8_initial\<lparr>lower_boundary := (if b = 0xF0 then 0x90 else 0x80),
                          upper_boundary := (if b = 0xF4 then 0x8F else 0xBF),
                          bytes_needed := 3, code_point := b mod 8\<rparr>)
      else ([0xFFFD], utf8_initial))"

fun utf8_decoder :: "utf8_state \<Rightarrow> nat list \<Rightarrow> nat list" where
  "utf8_decoder st [] = (if bytes_needed st \<noteq> 0 then [0xFFFD] else [])"
| "utf8_decoder st (b # bs) =
     (if bytes_needed st = 0 then fst (utf8_lead b) @ utf8_decoder (snd (utf8_lead b)) bs
      else if b < lower_boundary st \<or> upper_boundary st < b then
        0xFFFD # fst (utf8_lead b) @ utf8_decoder (snd (utf8_lead b)) bs
      else if bytes_seen st + 1 \<noteq> bytes_needed st then
        utf8_decoder (st\<lparr>lower_boundary := 0x80, upper_boundary := 0xBF,
                          code_point := code_point st * 64 + b mod 64,
                          bytes_seen := bytes_seen st + 1\<rparr>) bs
      else (code_point st * 64 + b mod 64) # utf8_decoder utf8_initial bs)"

text \<open>\<^verbatim>\<open>new TextDecoder()\<close> has \<^verbatim>\<open>ignoreBOM\<close> false: a first code point U+FEFF is left out.\<close>

definition strip_bom :: "nat list \<Rightarrow> nat list" where
  "strip_bom cps = (case cps of [] \<Rightarrow> [] | c # r \<Rightarrow> if c = 0xFEFF then r else cps)"

definition code_units :: "nat \<Rightarrow> jsstring" where
  "code_units cp =
     (if cp < 0x10000 then [of_nat cp]
      else [of_nat (0xD800 + (cp - 0x10000) div 0x400), of_nat (0xDC00 + (cp - 0x10000) mod 0x400)])"

definition TextDecoder_decode :: "byte list \<Rightarrow> jsstring" where
  "TextDecoder_decode bs =
     concat (map code_units (strip_bom (utf8_decoder utf8_initial (map unat bs))))"

text \<open>A Unicode scalar value: a code point that is not a surrogate.\<close>

definition is_scalar_value :: "nat \<Rightarrow> bool" where
  "is_scalar_value cp = (cp < 0x110000 \<and> \<not> (0xD800 \<le> cp \<and> cp \<le> 0xDFFF))"


text \<open>\<^verbatim>\<open>String.prototype.isWellFormed\<close>: no surrogate outside a pair.\<close>

fun isWellFormed :: "jsstring \<Rightarrow> bool" where
  "isWellFormed (u # v # r) =
     (if is_high_surrogate u then is_low_surrogate v \<and> isWellFormed r
      else \<not> is_low_surrogate u \<and> isWellFormed (v # r))"
| "isWellFormed [u] = (\<not> is_surrogate u)"
| "isWellFormed [] = True"

section \<open>The random source and the cryptography engine\<close>

text \<open>
  \<^verbatim>\<open>crypto.getRandomValues\<close> fills an array from the host's random source. The source is
  the sequence of bytes it will hand out; a call takes the next ones and leaves the rest.
  (The facade asks for 64 bytes at a time, far below the 65536 a call may ask for.)
\<close>

type_synonym rng = "nat \<Rightarrow> byte"

definition getRandomValues :: "nat \<Rightarrow> rng \<Rightarrow> byte list \<times> rng" where
  "getRandomValues n g = (map g [0..<n], (\<lambda>i. g (n + i)))"

text \<open>
  The algorithms behind \<^verbatim>\<open>crypto.subtle\<close> (SHA-256, PBKDF2 with HMAC, AES-GCM) belong to the
  host, and so does the number of arguments a call may have. They are parameters of the
  model: an \<open>engine\<close> gives that number, gives the digest as a 256-bit value,
  says how the import of raw PBKDF2 key material and the derivation settle (the source notes
  that one browser never settles on empty text), and gives AES-GCM encryption and
  decryption, each with no result when it refuses its input (a plaintext beyond the
  length the algorithm allows; a tag that does not verify).
\<close>

datatype 'a settled = Done 'a | Failed | Never

datatype hash_algorithm = SHA_1 | SHA_256 | SHA_384 | SHA_512

record engine =
  argument_limit :: nat
  sha256 :: "byte list \<Rightarrow> 256 word"
  pbkdf2_import :: "byte list \<Rightarrow> unit settled"
  pbkdf2_hmac :: "hash_algorithm \<Rightarrow> byte list \<Rightarrow> byte list \<Rightarrow> nat \<Rightarrow> nat \<Rightarrow> byte list settled"
  aes_gcm_encrypt :: "byte list \<Rightarrow> byte list \<Rightarrow> byte list \<Rightarrow> byte list option"
  aes_gcm_decrypt :: "byte list \<Rightarrow> byte list \<Rightarrow> byte list \<Rightarrow> byte list option"

text \<open>The 32 bytes of a digest, most significant first.\<close>

definition digest_bytes :: "256 word \<Rightarrow> byte list" where
  "digest_bytes w = map (\<lambda>i. ucast (drop_bit (8 * (31 - i)) w)) [0..<32]"

text \<open>
  The calls of \<^verbatim>\<open>crypto.subtle\<close> the facade makes, with the checks and exception names of
  the Web Cryptography standard.
  \<^verbatim>\<open>importKey("raw", data, "PBKDF2", false, ["deriveBits"])\<close>; the key is the data.
\<close>

definition importKey_PBKDF2 :: "engine \<Rightarrow> byte list \<Rightarrow> byte list promise" where
  "importKey_PBKDF2 E keyData =
     (case pbkdf2_import E keyData of
        Done _ \<Rightarrow> Fulfilled keyData | Failed \<Rightarrow> Rejected DataError | Never \<Rightarrow> Pending)"

text \<open>\<^verbatim>\<open>deriveBits({name: "PBKDF2", hash, salt, iterations}, key, length)\<close>\<close>

definition deriveBits_PBKDF2 ::
  "engine \<Rightarrow> hash_algorithm \<Rightarrow> byte list \<Rightarrow> nat \<Rightarrow> byte list \<Rightarrow> nat \<Rightarrow> byte list promise" where
  "deriveBits_PBKDF2 E h slt iterations key len =
     (if len mod 8 \<noteq> 0 \<or> iterations = 0 then Rejected OperationError
      else (case pbkdf2_hmac E h key slt iterations (len div 8) of
              Done bits \<Rightarrow> Fulfilled bits | Failed \<Rightarrow> Rejected OperationError | Never \<Rightarrow> Pending))"

text \<open>\<^verbatim>\<open>digest("SHA-256", data)\<close>\<close>

definition digest_SHA256 :: "engine \<Rightarrow> byte list \<Rightarrow> byte list promise" where
  "digest_SHA256 E data = Fulfilled (digest_bytes (sha256 E data))"

text \<open>\<^verbatim>\<open>importKey("raw", data, {name: "AES-GCM", ...}, false, usages)\<close>: 128, 192 or 256 bits.\<close>

definition importKey_AES_GCM :: "byte list \<Rightarrow> byte list promise" where
  "importKey_AES_GCM keyData =
     (if length keyData = 16 \<or> length keyData = 24 \<or> length keyData = 32
      then Fulfilled keyData else Rejected DataError)"

text \<open>\<^verbatim>\<open>encrypt({name: "AES-GCM", iv}, key, data)\<close> and \<^verbatim>\<open>decrypt({name: "AES-GCM", iv}, key, data)\<close>\<close>

definition encrypt_AES_GCM :: "engine \<Rightarrow> byte list \<Rightarrow> byte list \<Rightarrow> byte list \<Rightarrow> byte list promise" where
  "encrypt_AES_GCM E nonce key data =
     (case aes_gcm_encrypt E key nonce data of
        None \<Rightarrow> Rejected OperationError | Some ct \<Rightarrow> Fulfilled ct)"

definition decrypt_AES_GCM :: "engine \<Rightarrow> byte list \<Rightarrow> byte list \<Rightarrow> byte list \<Rightarrow> byte list promise" where
  "decrypt_AES_GCM E nonce key data =
     (case aes_gcm_decrypt E key nonce data of
        None \<Rightarrow> Rejected OperationError | Some pt \<Rightarrow> Fulfilled pt)"

section \<open>The four public functions\<close>

text \<open>
  \<^verbatim>\<open>
  async function hash(text, salt) {
    const key = await crypto.subtle.importKey("raw", new TextEncoder().encode(text), "PBKDF2", false, ["deriveBits"]);
    const bits = await crypto.subtle.deriveBits({ name: "PBKDF2", hash: "SHA-512", salt: b642u8a(salt), iterations: 1000 }, key, 512);
    return u8a2b64(new Uint8Array(bits));
  }\<close>
\<close>

definition hash :: "engine \<Rightarrow> jsstring \<Rightarrow> jsstring \<Rightarrow> jsstring promise" where
  "hash E text slt =
     await (importKey_PBKDF2 E (TextEncoder_encode text)) (\<lambda>key.
     try_call (b642u8a slt) (\<lambda>salt_bytes.
     await (deriveBits_PBKDF2 E SHA_512 salt_bytes 1000 key 512) (\<lambda>bits.
     try_call (u8a2b64 (argument_limit E) bits) Fulfilled)))"

text \<open>
  \<^verbatim>\<open>
  function salt() {
    return u8a2b64(crypto.getRandomValues(new Uint8Array(64)));
  }\<close>
\<close>

definition salt :: "engine \<Rightarrow> rng \<Rightarrow> (error + jsstring) \<times> rng" where
  "salt E g =
     (u8a2b64 (argument_limit E) (fst (getRandomValues 64 g)), snd (getRandomValues 64 g))"

text \<open>
  \<^verbatim>\<open>
  async function encrypt(plaintext, secret) {
    const algorithm = { name: "AES-GCM", iv: crypto.getRandomValues(new Uint8Array(64)) };
    const digest = await crypto.subtle.digest("SHA-256", new TextEncoder().encode(secret));
    const key = await crypto.subtle.importKey("raw", digest, algorithm, false, ["encrypt"]);
    const encryption = await crypto.subtle.encrypt(algorithm, key, new TextEncoder().encode(plaintext));
    return { iv: u8a2b64(algorithm.iv), ciphertext: u8a2b64(new Uint8Array(encryption)) };
  }\<close>
\<close>

record encryption =
  iv :: jsstring
  ciphertext :: jsstring

definition encrypt :: "engine \<Rightarrow> jsstring \<Rightarrow> jsstring \<Rightarrow> rng \<Rightarrow> encryption promise \<times> rng" where
  "encrypt E plaintext secret g =
     (let algorithm_iv = fst (getRandomValues 64 g) in
        await (digest_SHA256 E (TextEncoder_encode secret)) (\<lambda>digest.
        await (importKey_AES_GCM digest) (\<lambda>key.
        await (encrypt_AES_GCM E algorithm_iv key (TextEncoder_encode plaintext)) (\<lambda>enc.
        try_call (u8a2b64 (argument_limit E) algorithm_iv) (\<lambda>i.
        try_call (u8a2b64 (argument_limit E) enc) (\<lambda>c.
        Fulfilled \<lparr>iv = i, ciphertext = c\<rparr>))))),
      snd (getRandomValues 64 g))"

text \<open>
  \<^verbatim>\<open>
  async function decrypt(ciphertext, iv, secret) {
    const algorithm = { name: "AES-GCM", iv: b642u8a(iv) };
    const digest = await crypto.subtle.digest("SHA-256", new TextEncoder().encode(secret));
    const key = await crypto.subtle.importKey("raw", digest, algorithm, false, ["decrypt"]);
    const decryption = await crypto.subtle.decrypt(algorithm, key, b642u8a(ciphertext));
    return new TextDecoder().decode(decryption);
  }\<close>
\<close>

definition decrypt :: "engine \<Rightarrow> jsstring \<Rightarrow> jsstring \<Rightarrow> jsstring \<Rightarrow> jsstring promise" where
  "decrypt E c i secret =
     try_call (b642u8a i) (\<lambda>algorithm_iv.
     await (digest_SHA256 E (TextEncoder_encode secret)) (\<lambda>digest.
     await (importKey_AES_GCM digest) (\<lambda>key.
     try_call (b642u8a c) (\<lambda>data.
     await (decrypt_AES_GCM E algorithm_iv key data) (\<lambda>decryption.
     Fulfilled (TextDecoder_decode decryption))))))"

section \<open>Notions of the specification\<close>

text \<open>The key \<^verbatim>\<open>encrypt\<close> and \<^verbatim>\<open>decrypt\<close> import: the SHA-256 digest of the encoded secret.\<close>

definition derived_key :: "engine \<Rightarrow> jsstring \<Rightarrow> byte list" where
  "derived_key E secret = digest_bytes (sha256 E (TextEncoder_encode secret))"

text \<open>
  A standard base 64 string, in the words of the specification (standard alphabet, with
  padding, no omitted padding): its length is a multiple of four and, one or two final
  \<^verbatim>\<open>=\<close> apart, its characters are of the alphabet.
\<close>

definition is_base64 :: "jsstring \<Rightarrow> bool" where
  "is_base64 s = (length s mod 4 = 0 \<and> b64_values (strip_padding s) \<noteq> None)"

text \<open>
  What \<^verbatim>\<open>atob\<close> accepts: whitespace removed and padding removed (when the length was a
  multiple of four), characters of the alphabet, not 1 modulo 4 of them.
\<close>

definition accepted_by_atob :: "jsstring \<Rightarrow> bool" where
  "accepted_by_atob s =
     (length (forgiving_strip s) mod 4 \<noteq> 1 \<and> b64_values (forgiving_strip s) \<noteq> None)"

text \<open>
  A canonical base 64 string is a standard one in which the bits of the last character that
  fall outside the last byte are zero (RFC 4648, section 3.5).
\<close>

fun unused_bits_zero :: "nat list \<Rightarrow> bool" where
  "unused_bits_zero (w # x # y # z # r) = unused_bits_zero r"
| "unused_bits_zero [w, x, y] = (y mod 4 = 0)"
| "unused_bits_zero [w, x] = (x mod 16 = 0)"
| "unused_bits_zero [w] = False"
| "unused_bits_zero [] = True"

definition canonical_base64 :: "jsstring \<Rightarrow> bool" where
  "canonical_base64 s =
     (length s mod 4 = 0 \<and>
      (case b64_values (strip_padding s) of None \<Rightarrow> False | Some vs \<Rightarrow> unused_bits_zero vs))"

section \<open>A small engine to run the functions on\<close>

text \<open>
  The theorems below hold for every engine. To apply them to concrete inputs an engine is
  needed; \<open>demo_engine\<close> is a deliberately simple one (a one-byte checksum in place of SHA-256 and
  of PBKDF2, a one-byte mask and a 16-byte checksum tag in place of AES-GCM). It accepts every
  key material, as the Web Cryptography standard prescribes for PBKDF2, and calls of up to
  125000 arguments.
\<close>

definition demo_sum :: "byte list \<Rightarrow> byte" where
  "demo_sum bs = foldl (\<lambda>h b. 167 * (h XOR b) + 13) 7 bs"

definition demo_tag :: "byte list \<Rightarrow> byte list \<Rightarrow> byte list \<Rightarrow> byte list" where
  "demo_tag key nonce msg = replicate 16 (demo_sum (key @ nonce @ msg))"

definition demo_encrypt :: "byte list \<Rightarrow> byte list \<Rightarrow> byte list \<Rightarrow> byte list" where
  "demo_encrypt key nonce msg =
     map (\<lambda>b. b XOR demo_sum (key @ nonce)) msg @ demo_tag key nonce msg"

definition demo_decrypt :: "byte list \<Rightarrow> byte list \<Rightarrow> byte list \<Rightarrow> byte list option" where
  "demo_decrypt key nonce data =
     (if length data < 16 then None
      else (let msg = map (\<lambda>b. b XOR demo_sum (key @ nonce)) (take (length data - 16) data)
            in if drop (length data - 16) data = demo_tag key nonce msg then Some msg else None))"

definition demo_engine :: engine where
  "demo_engine = \<lparr>
     argument_limit = 125000,
     sha256 = (\<lambda>data. ucast (demo_sum data)),
     pbkdf2_import = (\<lambda>keyData. Done ()),
     pbkdf2_hmac = (\<lambda>h key slt iterations n.
        Done (map (\<lambda>i. demo_sum (key @ slt) + of_nat i) [0..<n])),
     aes_gcm_encrypt = (\<lambda>key nonce msg. Some (demo_encrypt key nonce msg)),
     aes_gcm_decrypt = demo_decrypt\<rparr>"

text \<open>The same engine, except that it never settles on empty PBKDF2 key material.\<close>

definition stalling_engine :: engine where
  "stalling_engine =
     demo_engine\<lparr>pbkdf2_import := (\<lambda>keyData. if keyData = [] then Never else Done ())\<rparr>"

text \<open>A random source for the examples: the bytes 0, 1, 2, ...\<close>

definition demo_rng :: rng where
  "demo_rng = (\<lambda>i. of_nat i)"

section \<open>Base 64: decoding what was encoded\<close>

lemma unat_of_nat16: "n < 65536 \<Longrightarrow> unat (of_nat n :: code_unit) = n"
  by (simp add: unat_of_nat)

lemma unat_of_nat8: "n < 256 \<Longrightarrow> unat (of_nat n :: byte) = n"
  by (simp add: unat_of_nat)

lemma unat_b64_char:
  "i < 64 \<Longrightarrow> unat (b64_char i) = (if i < 26 then 65 + i else if i < 52 then 71 + i
                        else if i < 62 then i - 4 else if i = 62 then 43 else 47)"
  unfolding b64_char_def by (rule unat_of_nat16) auto

lemma b64_value_char: "i < 64 \<Longrightarrow> b64_value (b64_char i) = Some i"
  by (simp add: b64_value_def unat_b64_char Let_def) arith

lemma b64_char_not_pad: "i < 64 \<Longrightarrow> b64_char i \<noteq> b64_pad"
proof
  assume "i < 64" "b64_char i = b64_pad"
  then have "unat (b64_char i) = 61" by (simp add: b64_pad_def)
  with \<open>i < 64\<close> show False by (simp add: unat_b64_char split: if_splits)
qed

lemma b64_char_not_ws: "i < 64 \<Longrightarrow> \<not> is_ascii_whitespace (b64_char i)"
proof
  assume a: "i < 64" "is_ascii_whitespace (b64_char i)"
  then have "unat (b64_char i) \<in> {9, 10, 12, 13, 32}" 
    by (auto simp: is_ascii_whitespace_def)
  with a(1) show False by (auto simp add: unat_b64_char split: if_splits)
qed

lemma b64_char_value:
  assumes "b64_value c = Some v"
  shows "b64_char v = c \<and> v < 64"
proof -
  from assms have v: "v < 64"
    and "(if v < 26 then 65 + v else if v < 52 then 71 + v
          else if v < 62 then v - 4 else if v = 62 then 43 else 47) = unat c"
    by (auto simp: b64_value_def Let_def split: if_splits)
  then have "b64_char v = of_nat (unat c)"
    by (simp only: b64_char_def)
  with v show ?thesis by simp
qed

lemma sextets_lt64: "\<forall>a\<in>set bs. a < 256 \<Longrightarrow> \<forall>v\<in>set (sextets bs). v < 64"
  by (induction bs rule: sextets.induct) auto

lemma octets_sextets: "\<forall>a\<in>set bs. a < 256 \<Longrightarrow> octets (sextets bs) = bs"
  by (induction bs rule: sextets.induct) auto

lemma length_sextets: "length (sextets bs) = (4 * length bs + 2) div 3"
  by (induction bs rule: sextets.induct) auto


lemma strip_padding_append:
  assumes "k \<le> 2" "xs = [] \<or> last xs \<noteq> b64_pad"
  shows "strip_padding (xs @ replicate k b64_pad) = xs"
proof -
  from assms(1) consider "k = 0" | "k = 1" | "k = 2" by linarith
  then show ?thesis
  proof cases
    case 1 with assms(2) show ?thesis by (auto simp: strip_padding_def)
  next
    case 2 with assms(2) show ?thesis by (auto simp: strip_padding_def butlast_append)
  next
    case 3
    then have "replicate k b64_pad = [b64_pad, b64_pad]" by (simp add: numeral_2_eq_2)
    with assms(2) show ?thesis by (auto simp: strip_padding_def butlast_append)
  qed
qed

lemma b64_values_map_char: "\<forall>v\<in>set vs. v < 64 \<Longrightarrow> b64_values (map b64_char vs) = Some vs"
  by (induction vs) (auto simp: b64_value_char)

lemma length_sextets_pad:
  "(length (sextets ns) + (3 - length ns mod 3) mod 3) mod 4 = 0"
proof (induction ns rule: sextets.induct)
  case (1 a b c r)
  have "length (a # b # c # r) mod 3 = length r mod 3" by simp
  moreover have "length (sextets (a # b # c # r)) = length (sextets r) + 4" by simp
  ultimately have "(length (sextets (a # b # c # r)) + (3 - length (a # b # c # r) mod 3) mod 3) mod 4
      = ((length (sextets r) + (3 - length r mod 3) mod 3) + 4) mod 4"
    by (simp only: add.assoc add.commute add.left_commute)
  with 1 show ?case by (simp only: mod_add_self2)
qed simp_all

lemma length_base64_encode: "length (base64_encode bs) mod 4 = 0"
  using length_sextets_pad [of "map unat bs"] by (simp add: base64_encode_def)

lemma length_sextets_mod4: "length (sextets ns) mod 4 \<noteq> 1"
  by (induction ns rule: sextets.induct) simp_all

lemma unat_ucast_byte: "unat (ucast (b::byte) :: code_unit) = unat b"
  by transfer simp

lemma ucast_byte_le: "(ucast (b::byte) :: code_unit) \<le> 0xFF"
proof -
  have "unat b < 256" using unsigned_less [of b, where ?'a = nat] by simp
  then show ?thesis by (simp add: word_le_nat_alt unat_ucast_byte)
qed

lemma of_nat_unat_byte: "(of_nat (unat (b::byte)) :: code_unit) = ucast b"
  by simp

lemma ucast_ucast_byte: "(ucast (ucast (b::byte) :: code_unit) :: byte) = b"
  by transfer simp

lemma unat_byte_lt: "unat (b::byte) < 256"
  using unsigned_less [of b, where ?'a = nat] by simp

lemma btoa_latin1: "btoa (map ucast bs) = Inr (base64_encode bs)"
proof -
  have "\<not> list_ex (\<lambda>c. 0xFF < c) (map ucast bs :: jsstring)"
    by (simp add: list_ex_iff not_less ucast_byte_le)
  moreover have "map ucast (map ucast bs :: jsstring) = bs"
    by (induction bs) (simp_all add: ucast_ucast_byte)
  ultimately show ?thesis
    by (simp only: btoa_def if_False)
qed

lemma filter_ws_base64_encode:
  "filter (\<lambda>c. \<not> is_ascii_whitespace c) (base64_encode bs) = base64_encode bs"
proof -
  have "\<forall>v\<in>set (sextets (map unat bs)). v < 64"
    by (rule sextets_lt64) (simp add: unat_byte_lt)
  moreover have "\<not> is_ascii_whitespace b64_pad"
    by (simp add: is_ascii_whitespace_def b64_pad_def)
  ultimately show ?thesis
    by (auto simp: base64_encode_def filter_id_conv b64_char_not_ws)
qed

lemma atob_base64_encode: "atob (base64_encode bs) = Inr (map ucast bs)"
proof -
  let ?vs = "sextets (map unat bs)"
  let ?k = "(3 - length bs mod 3) mod 3"
  have lt: "\<forall>v\<in>set ?vs. v < 64"
    by (rule sextets_lt64) (simp add: unat_byte_lt)
  have "map b64_char ?vs = [] \<or> last (map b64_char ?vs) \<noteq> b64_pad"
  proof (cases "?vs = []")
    case False
    then have "last ?vs \<in> set ?vs" by simp
    with lt have "last ?vs < 64" by blast
    with False show ?thesis by (simp add: last_map b64_char_not_pad)
  qed simp
  then have strip: "strip_padding (base64_encode bs) = map b64_char ?vs"
    unfolding base64_encode_def by (intro strip_padding_append) simp_all
  have oct: "octets ?vs = map unat bs"
    by (rule octets_sextets) (simp add: unat_byte_lt)
  have len: "length (map b64_char ?vs) mod 4 \<noteq> 1"
    using length_sextets_mod4 [of "map unat bs"] by simp
  have vals: "b64_values (map b64_char ?vs) = Some ?vs"
    by (rule b64_values_map_char [OF lt])
  have "forgiving_strip (base64_encode bs) = map b64_char ?vs"
    unfolding forgiving_strip_def Let_def filter_ws_base64_encode
    by (simp only: length_base64_encode strip if_True simp_thms)
  then have "atob (base64_encode bs) =
          (if length (map b64_char ?vs) mod 4 = 1 then Inl InvalidCharacterError
           else (case b64_values (map b64_char ?vs) of
                   None \<Rightarrow> Inl InvalidCharacterError
                 | Some vs \<Rightarrow> Inr (map of_nat (octets vs))))"
    by (simp only: atob_def Let_def)
  also have "\<dots> = Inr (map of_nat (octets ?vs))"
    by (simp only: len vals if_False option.case)
  also have "\<dots> = Inr (map ucast bs)"
    by (simp add: oct)
  finally show ?thesis .
qed

lemma spread_latin1: "\<forall>u\<in>set s. u \<le> 0xFF \<Longrightarrow> spread s = map (\<lambda>u. [u]) s"
proof (induction s rule: spread.induct)
  case (1 u v r)
  then have "u \<le> 0xFF" by simp
  then have "\<not> is_high_surrogate u" by (simp add: is_high_surrogate_def word_le_nat_alt)
  with 1 show ?case by simp
qed simp_all

lemma b642u8a_base64_encode: "b642u8a (base64_encode bs) = Inr bs"
proof -
  have "spread (map ucast bs) = map (\<lambda>u. [u]) (map ucast bs)"
    by (rule spread_latin1) (auto simp: ucast_byte_le)
  then show ?thesis
    by (simp add: b642u8a_def atob_base64_encode to_uint8_def charCodeAt0_def
        ucast_ucast_byte comp_def)
qed

lemma u8a2b64_eq:
  "u8a2b64 n bs = (if n < length bs then Inl RangeError else Inr (base64_encode bs))"
  by (simp add: u8a2b64_def fromCharCode_def btoa_latin1)

section \<open>Base 64: what the decoder accepts, and encoding what was decoded\<close>

lemma sextet_arith1: "x < 64 \<Longrightarrow> (w * 4 + x div 16) div 4 = (w::nat)" by simp
lemma sextet_arith2: "x < 64 \<Longrightarrow> (w * 4 + x div 16) mod 4 = (x::nat) div 16" by simp
lemma sextet_arith3: "y < 64 \<Longrightarrow> (x mod 16 * 16 + y div 4) div 16 = (x::nat) mod 16" by simp
lemma sextet_arith4: "y < 64 \<Longrightarrow> (x mod 16 * 16 + y div 4) mod 16 = (y::nat) div 4" by simp
lemma sextet_arith5: "z < 64 \<Longrightarrow> (y mod 4 * 64 + z) div 64 = (y::nat) mod 4" by simp
lemma sextet_arith6: "z < 64 \<Longrightarrow> (y mod 4 * 64 + z) mod 64 = (z::nat)" by simp
lemma octet_range1: "w < 64 \<Longrightarrow> x < 64 \<Longrightarrow> (w * 4 + x div 16) mod 256 = (w::nat) * 4 + x div 16"
  by simp
lemma octet_range2: "y < 64 \<Longrightarrow> (x mod 16 * 16 + y div 4) mod 256 = (x::nat) mod 16 * 16 + y div 4"
  by simp
lemma octet_range3: "z < 64 \<Longrightarrow> (y mod 4 * 64 + z) mod 256 = (y::nat) mod 4 * 64 + z"
  by simp

lemma digits_join1: "x < 64 \<Longrightarrow> x div 16 * 16 + x mod 16 = (x::nat)" by simp
lemma digits_join2: "y < 64 \<Longrightarrow> y div 4 * 4 + y mod 4 = (y::nat)" by simp

lemma octets_lt256: "\<forall>b\<in>set (octets vs). b < 256"
  by (induction vs rule: octets.induct) simp_all

lemma sextets_octets:
  "\<forall>v\<in>set vs. v < 64 \<Longrightarrow> unused_bits_zero vs \<Longrightarrow> sextets (octets vs) = vs"
proof (induction vs rule: octets.induct)
  case (1 w x y z r)
  then have b: "w < 64" "x < 64" "y < 64" "z < 64" by simp_all
  from 1 have "sextets (octets r) = r" by simp
  then show ?case
    by (simp only: octets.simps sextets.simps append_Cons append_Nil
        octet_range1 [OF b(1,2)] octet_range2 [OF b(3)] octet_range3 [OF b(4)] sextet_arith1 [OF b(2)] sextet_arith2 [OF b(2)] sextet_arith3 [OF b(3)]
        sextet_arith4 [OF b(3)] sextet_arith5 [OF b(4)] sextet_arith6 [OF b(4)] digits_join1 [OF b(2)] digits_join2 [OF b(3)])
next
  case (2 w x y)
  then have b: "w < 64" "x < 64" "y < 64" and y: "y mod 4 = 0" by simp_all
  from y have "y div 4 * 4 = y" by (metis add.right_neutral digits_join2 [OF b(3)])
  then show ?case
    by (simp only: octets.simps sextets.simps
        octet_range1 [OF b(1,2)] octet_range2 [OF b(3)] sextet_arith1 [OF b(2)] sextet_arith2 [OF b(2)] sextet_arith3 [OF b(3)]
        sextet_arith4 [OF b(3)] digits_join1 [OF b(2)])
next
  case (3 w x)
  then have b: "w < 64" "x < 64" and x: "x mod 16 = 0" by simp_all
  from x have "x div 16 * 16 = x" by (metis add.right_neutral digits_join1 [OF b(2)])
  then show ?case
    by (simp only: octets.simps sextets.simps octet_range1 [OF b(1,2)] sextet_arith1 [OF b(2)] sextet_arith2 [OF b(2)])
qed simp_all

lemma b64_value_not_ws: "b64_value c = Some v \<Longrightarrow> \<not> is_ascii_whitespace c"
  using b64_char_value [of c v] b64_char_not_ws [of v] by auto

lemma b64_value_not_pad: "b64_value c = Some v \<Longrightarrow> c \<noteq> b64_pad"
  using b64_char_value [of c v] b64_char_not_pad [of v] by auto

lemma b64_values_Some:
  "b64_values d = Some vs \<Longrightarrow> map b64_char vs = d \<and> (\<forall>v\<in>set vs. v < 64) \<and> length vs = length d"
proof (induction d arbitrary: vs)
  case (Cons c d)
  then obtain v ws where v: "b64_value c = Some v" and ws: "b64_values d = Some ws" and "vs = v # ws"
    by (auto split: option.splits)
  with Cons.IH [OF ws] b64_char_value [OF v] show ?case by simp
qed simp

lemma b64_values_no_ws:
  "b64_values d = Some vs \<Longrightarrow> filter (\<lambda>c. \<not> is_ascii_whitespace c) d = d"
proof (induction d arbitrary: vs)
  case (Cons c d)
  then show ?case by (auto split: option.splits simp: b64_value_not_ws)
qed simp

lemma ucast_of_nat_byte: "(ucast (of_nat n :: code_unit) :: byte) = of_nat n"
  by transfer simp

lemma of_nat_le_FF: "n < 256 \<Longrightarrow> (of_nat n :: code_unit) \<le> 0xFF"
  by (simp add: word_le_nat_alt unat_of_nat16)

lemma uint8_of_latin1:
  assumes "\<forall>n\<in>set ns. n < 256"
  shows "map (\<lambda>c. to_uint8 (charCodeAt0 c)) (spread (map of_nat ns)) = map of_nat ns"
proof -
  have "spread (map of_nat ns) = map (\<lambda>u. [u]) (map of_nat ns)"
    by (rule spread_latin1) (use assms in \<open>auto simp: of_nat_le_FF\<close>)
  then show ?thesis
    by (simp add: to_uint8_def charCodeAt0_def ucast_of_nat_byte comp_def)
qed

lemma b642u8a_rejected: "\<not> accepted_by_atob s \<Longrightarrow> b642u8a s = Inl InvalidCharacterError"
  by (auto simp: accepted_by_atob_def b642u8a_def atob_def Let_def)

lemma b642u8a_accepted:
  assumes "accepted_by_atob s" "b64_values (forgiving_strip s) = Some vs"
  shows "b642u8a s = Inr (map of_nat (octets vs))"
proof -
  from assms have "atob s = Inr (map of_nat (octets vs))"
    by (simp add: accepted_by_atob_def atob_def Let_def)
  then show ?thesis
    by (simp add: b642u8a_def uint8_of_latin1 octets_lt256)
qed

lemma b642u8a_error: "b642u8a s = Inl e \<Longrightarrow> e = InvalidCharacterError \<and> \<not> accepted_by_atob s"
proof (cases "accepted_by_atob s")
  case True
  then obtain vs where "b64_values (forgiving_strip s) = Some vs"
    by (auto simp: accepted_by_atob_def)
  from b642u8a_accepted [OF True this] show "b642u8a s = Inl e \<Longrightarrow> ?thesis" by simp
next
  case False
  from b642u8a_rejected [OF this] show "b642u8a s = Inl e \<Longrightarrow> ?thesis" using False by simp
qed

lemma pad_unique: "k \<le> 2 \<Longrightarrow> k' \<le> 2 \<Longrightarrow> (a + k) mod 4 = 0 \<Longrightarrow> (a + k') mod 4 = 0 \<Longrightarrow> k = (k'::nat)"
  by presburger

lemma not_one_mod4: "k \<le> 2 \<Longrightarrow> (d + k) mod 4 = 0 \<Longrightarrow> d mod 4 \<noteq> (1::nat)"
  by presburger

lemma strip_padding_decomp: "\<exists>k\<le>2. s = strip_padding s @ replicate k b64_pad"
proof -
  define P2 where "P2 \<longleftrightarrow> 2 \<le> length s \<and> last s = b64_pad \<and> last (butlast s) = b64_pad"
  define P1 where "P1 \<longleftrightarrow> s \<noteq> [] \<and> last s = b64_pad"
  have sp: "strip_padding s = (if P2 then butlast (butlast s) else if P1 then butlast s else s)"
    by (simp only: strip_padding_def P2_def P1_def)
  show ?thesis
  proof (cases P2)
    case True
    then have two: "2 \<le> length s" "last s = b64_pad" "last (butlast s) = b64_pad"
      by (simp_all add: P2_def)
    then have "s \<noteq> []" "butlast s \<noteq> []" by (auto simp: butlast_conv_take)
    then have "s = butlast (butlast s) @ [last (butlast s), last s]"
      by (metis append_butlast_last_id append.assoc append_Cons append_Nil)
    with two have "s = butlast (butlast s) @ replicate 2 b64_pad"
      by (simp add: numeral_2_eq_2)
    with True sp have "s = strip_padding s @ replicate 2 b64_pad" by simp
    then show ?thesis by blast
  next
    case False
    show ?thesis
    proof (cases P1)
      case True
      then have ne: "s \<noteq> []" and l: "last s = b64_pad" by (simp_all add: P1_def)
      from ne have "butlast s @ [last s] = s" by (rule append_butlast_last_id)
      with l have "s = butlast s @ replicate 1 b64_pad" by simp
      with True False sp have "s = strip_padding s @ replicate 1 b64_pad" by simp
      then show ?thesis by (metis one_le_numeral)
    next
      case F1: False
      with False sp have "s = strip_padding s @ replicate 0 b64_pad" by simp
      then show ?thesis by blast
    qed
  qed
qed

lemma pad_not_ws: "\<not> is_ascii_whitespace b64_pad"
  by (simp add: is_ascii_whitespace_def b64_pad_def)

lemma is_base64_accepted:
  assumes "is_base64 s"
  shows "forgiving_strip s = strip_padding s" and "accepted_by_atob s"
proof -
  from assms obtain vs where len: "length s mod 4 = 0" and vs: "b64_values (strip_padding s) = Some vs"
    by (auto simp: is_base64_def)
  obtain k where k: "k \<le> 2" "s = strip_padding s @ replicate k b64_pad"
    using strip_padding_decomp by blast
  have "filter (\<lambda>c. \<not> is_ascii_whitespace c) (strip_padding s @ replicate k b64_pad)
        = strip_padding s @ replicate k b64_pad"
    by (simp add: b64_values_no_ws [OF vs] pad_not_ws)
  with k(2) have "filter (\<lambda>c. \<not> is_ascii_whitespace c) s = s" by simp
  with len show fs: "forgiving_strip s = strip_padding s"
    by (simp add: forgiving_strip_def)
  from k(2) have "length s = length (strip_padding s) + k"
    by (metis length_append length_replicate)
  with len have "(length (strip_padding s) + k) mod 4 = 0" by simp
  from not_one_mod4 [OF k(1) this] vs fs show "accepted_by_atob s"
    by (simp add: accepted_by_atob_def)
qed

lemma pad_count:
  "unused_bits_zero vs \<Longrightarrow>
     (length vs + (3 - length (octets vs) mod 3) mod 3) mod 4 = 0"
proof (induction vs rule: octets.induct)
  case (1 w x y z r)
  have "length (octets (w # x # y # z # r)) mod 3 = length (octets r) mod 3" by simp
  moreover have "length (w # x # y # z # r) = length r + 4" by simp
  ultimately have "(length (w # x # y # z # r) + (3 - length (octets (w # x # y # z # r)) mod 3) mod 3) mod 4
      = ((length r + (3 - length (octets r) mod 3) mod 3) + 4) mod 4"
    by (simp only: add.assoc add.commute add.left_commute)
  with 1 show ?case by (simp only: mod_add_self2 unused_bits_zero.simps)
qed simp_all

lemma map_unat_of_nat_byte: "\<forall>n\<in>set ns. n < 256 \<Longrightarrow> map unat (map of_nat ns :: byte list) = ns"
  by (induction ns) (simp_all add: unat_of_nat8)

lemma canonical_encode_decode:
  assumes "canonical_base64 s"
  shows "\<exists>bs. b642u8a s = Inr bs \<and> base64_encode bs = s"
proof -
  from assms obtain vs where len: "length s mod 4 = 0"
    and vs: "b64_values (strip_padding s) = Some vs" and z: "unused_bits_zero vs"
    by (auto simp: canonical_base64_def split: option.splits)
  then have b64: "is_base64 s" by (simp add: is_base64_def)
  note acc = is_base64_accepted [OF b64]
  let ?bs = "map of_nat (octets vs) :: byte list"
  from vs acc have dec: "b642u8a s = Inr ?bs"
    by (intro b642u8a_accepted) simp_all
  obtain k where k: "k \<le> 2" "s = strip_padding s @ replicate k b64_pad"
    using strip_padding_decomp by blast
  note V = b64_values_Some [OF vs]
  from k(2) have "length s = length vs + k"
    by (metis V length_append length_replicate)
  with len have k4: "(length vs + k) mod 4 = 0" by simp
  have k': "(3 - length ?bs mod 3) mod 3 \<le> 2" by simp
  from pad_count [OF z] have "(length vs + (3 - length ?bs mod 3) mod 3) mod 4 = 0" by simp
  from pad_unique [OF k' k(1) this k4] have keq: "(3 - length ?bs mod 3) mod 3 = k" .
  have "map unat ?bs = octets vs"
    by (rule map_unat_of_nat_byte) (rule octets_lt256)
  moreover from V z have "sextets (octets vs) = vs" by (intro sextets_octets) simp_all
  ultimately have "base64_encode ?bs = map b64_char vs @ replicate k b64_pad"
    by (simp only: base64_encode_def keq)
  with V k(2) have "base64_encode ?bs = s" by simp
  with dec show ?thesis by blast
qed

lemma strip_padding_base64_encode:
  "strip_padding (base64_encode bs) = map b64_char (sextets (map unat bs))"
proof -
  let ?vs = "sextets (map unat bs)"
  have lt: "\<forall>v\<in>set ?vs. v < 64"
    by (rule sextets_lt64) (simp add: unat_byte_lt)
  have "map b64_char ?vs = [] \<or> last (map b64_char ?vs) \<noteq> b64_pad"
  proof (cases "?vs = []")
    case False
    then have "last ?vs \<in> set ?vs" by simp
    with lt have "last ?vs < 64" by blast
    with False show ?thesis by (simp add: last_map b64_char_not_pad)
  qed simp
  then show ?thesis
    unfolding base64_encode_def by (intro strip_padding_append) simp_all
qed

lemma is_base64_base64_encode: "is_base64 (base64_encode bs)"
proof -
  have "\<forall>v\<in>set (sextets (map unat bs)). v < 64"
    by (rule sextets_lt64) (simp add: unat_byte_lt)
  then show ?thesis
    by (simp add: is_base64_def length_base64_encode strip_padding_base64_encode
        b64_values_map_char)
qed

section \<open>UTF-8: decoding what was encoded\<close>

lemma mod_shift: "a < m \<Longrightarrow> (k * m + a) mod m = (a::nat)" by simp
lemma mod_lead2: "a < 32 \<Longrightarrow> (192 + a) mod 32 = (a::nat)" using mod_shift [of a 32 6] by simp
lemma mod_cont: "b < 64 \<Longrightarrow> (128 + b) mod 64 = (b::nat)" using mod_shift [of b 64 2] by simp
lemma mod_lead3: "a < 16 \<Longrightarrow> (224 + a) mod 16 = (a::nat)" using mod_shift [of a 16 14] by simp
lemma mod_lead4: "a < 8 \<Longrightarrow> (240 + a) mod 8 = (a::nat)" using mod_shift [of a 8 30] by simp

lemma lead2: "2 \<le> a \<Longrightarrow> a < 32 \<Longrightarrow>
   utf8_lead (0xC0 + a) = ([], utf8_initial\<lparr>bytes_needed := 1, code_point := a\<rparr>)"
  by (simp add: utf8_lead_def mod_lead2)

lemma lead3: "a < 16 \<Longrightarrow>
   utf8_lead (0xE0 + a) = ([], utf8_initial\<lparr>lower_boundary := (if a = 0 then 0xA0 else 0x80),
                          upper_boundary := (if a = 13 then 0x9F else 0xBF),
                          bytes_needed := 2, code_point := a\<rparr>)"
  by (simp add: utf8_lead_def mod_lead3)

lemma lead4: "a < 5 \<Longrightarrow>
   utf8_lead (0xF0 + a) = ([], utf8_initial\<lparr>lower_boundary := (if a = 0 then 0x90 else 0x80),
                          upper_boundary := (if a = 4 then 0x8F else 0xBF),
                          bytes_needed := 3, code_point := a\<rparr>)"
  by (simp add: utf8_lead_def mod_lead4)

text \<open>One continuation byte in range, more to come.\<close>

lemma decoder_continue:
  assumes "bytes_needed st \<noteq> 0" "lower_boundary st \<le> 0x80 + b" "0x80 + b \<le> upper_boundary st"
    "b < 64" "bytes_seen st + 1 \<noteq> bytes_needed st"
  shows "utf8_decoder st ((0x80 + b) # rest) =
         utf8_decoder (st\<lparr>lower_boundary := 0x80, upper_boundary := 0xBF,
                          code_point := code_point st * 64 + b,
                          bytes_seen := bytes_seen st + 1\<rparr>) rest"
  using assms by (simp add: mod_cont not_less [symmetric])

lemma decoder_last:
  assumes "bytes_needed st \<noteq> 0" "lower_boundary st \<le> 0x80 + b" "0x80 + b \<le> upper_boundary st"
    "b < 64" "bytes_seen st + 1 = bytes_needed st"
  shows "utf8_decoder st ((0x80 + b) # rest) =
         (code_point st * 64 + b) # utf8_decoder utf8_initial rest"
  using assms by (simp add: mod_cont not_less [symmetric])

lemma decoder1:
  assumes "a < 128"
  shows "utf8_decoder utf8_initial (a # rest) = a # utf8_decoder utf8_initial rest"
  using assms by (simp add: utf8_lead_def utf8_initial_def)

lemma decoder_start:
  "utf8_decoder utf8_initial (b # rest) = fst (utf8_lead b) @ utf8_decoder (snd (utf8_lead b)) rest"
  by (simp add: utf8_initial_def)

lemma decoder2:
  assumes "2 \<le> a" "a < 32" "b < 64"
  shows "utf8_decoder utf8_initial ((0xC0 + a) # (0x80 + b) # rest)
         = (a * 64 + b) # utf8_decoder utf8_initial rest"
proof -
  let ?st = "utf8_initial\<lparr>bytes_needed := 1, code_point := a\<rparr>"
  have "utf8_decoder utf8_initial ((0xC0 + a) # (0x80 + b) # rest)
        = utf8_decoder ?st ((0x80 + b) # rest)"
    by (simp only: decoder_start lead2 [OF assms(1,2)] fst_conv snd_conv append_Nil)
  also have "\<dots> = (code_point ?st * 64 + b) # utf8_decoder utf8_initial rest"
    using assms(3) by (intro decoder_last) (simp_all add: utf8_initial_def)
  finally show ?thesis by simp
qed

lemma decoder3:
  assumes "a < 16" "b < 64" "c < 64" "a = 0 \<longrightarrow> 32 \<le> b" "a = 13 \<longrightarrow> b < 32"
  shows "utf8_decoder utf8_initial ((0xE0 + a) # (0x80 + b) # (0x80 + c) # rest)
         = ((a * 64 + b) * 64 + c) # utf8_decoder utf8_initial rest"
proof -
  let ?st = "utf8_initial\<lparr>lower_boundary := (if a = 0 then 0xA0 else 0x80),
                          upper_boundary := (if a = 13 then 0x9F else 0xBF),
                          bytes_needed := 2, code_point := a\<rparr>"
  let ?st' = "?st\<lparr>lower_boundary := 0x80, upper_boundary := 0xBF,
                   code_point := code_point ?st * 64 + b, bytes_seen := bytes_seen ?st + 1\<rparr>"
  have "utf8_decoder utf8_initial ((0xE0 + a) # (0x80 + b) # (0x80 + c) # rest)
        = utf8_decoder ?st ((0x80 + b) # (0x80 + c) # rest)"
    by (simp only: decoder_start lead3 [OF assms(1)] fst_conv snd_conv append_Nil)
  also have "\<dots> = utf8_decoder ?st' ((0x80 + c) # rest)"
    using assms(2,4,5) by (intro decoder_continue) (auto simp: utf8_initial_def)
  also have "\<dots> = (code_point ?st' * 64 + c) # utf8_decoder utf8_initial rest"
    using assms(3) by (intro decoder_last) (simp_all add: utf8_initial_def)
  finally show ?thesis by simp
qed

lemma decoder4:
  assumes "a < 5" "b < 64" "c < 64" "d < 64" "a = 0 \<longrightarrow> 16 \<le> b" "a = 4 \<longrightarrow> b < 16"
  shows "utf8_decoder utf8_initial ((0xF0 + a) # (0x80 + b) # (0x80 + c) # (0x80 + d) # rest)
         = (((a * 64 + b) * 64 + c) * 64 + d) # utf8_decoder utf8_initial rest"
proof -
  let ?st = "utf8_initial\<lparr>lower_boundary := (if a = 0 then 0x90 else 0x80),
                          upper_boundary := (if a = 4 then 0x8F else 0xBF),
                          bytes_needed := 3, code_point := a\<rparr>"
  let ?st' = "?st\<lparr>lower_boundary := 0x80, upper_boundary := 0xBF,
                   code_point := code_point ?st * 64 + b, bytes_seen := bytes_seen ?st + 1\<rparr>"
  let ?st'' = "?st'\<lparr>lower_boundary := 0x80, upper_boundary := 0xBF,
                   code_point := code_point ?st' * 64 + c, bytes_seen := bytes_seen ?st' + 1\<rparr>"
  have "utf8_decoder utf8_initial ((0xF0 + a) # (0x80 + b) # (0x80 + c) # (0x80 + d) # rest)
        = utf8_decoder ?st ((0x80 + b) # (0x80 + c) # (0x80 + d) # rest)"
    by (simp only: decoder_start lead4 [OF assms(1)] fst_conv snd_conv append_Nil)
  also have "\<dots> = utf8_decoder ?st' ((0x80 + c) # (0x80 + d) # rest)"
    using assms(2,5,6) by (intro decoder_continue) (auto simp: utf8_initial_def)
  also have "\<dots> = utf8_decoder ?st'' ((0x80 + d) # rest)"
    using assms(3) by (intro decoder_continue) (auto simp: utf8_initial_def)
  also have "\<dots> = (code_point ?st'' * 64 + d) # utf8_decoder utf8_initial rest"
    using assms(4) by (intro decoder_last) (simp_all add: utf8_initial_def)
  finally show ?thesis by simp
qed
lemma digits2:
  fixes cp :: nat
  assumes "128 \<le> cp" "cp < 2048"
  shows "2 \<le> cp div 64" and "cp div 64 < 32" and "cp div 64 * 64 + cp mod 64 = cp"
proof -
  from div_le_mono [OF assms(1), of 64] show "2 \<le> cp div 64" by simp
  from assms(2) show "cp div 64 < 32" by (intro less_mult_imp_div_less) simp
  show "cp div 64 * 64 + cp mod 64 = cp" by simp
qed
lemma digit_low:
  fixes x :: nat
  assumes "x div 64 = q" "lo \<le> x" "x < hi" "lo = q * 64 + l" "hi = q * 64 + h"
  shows "l \<le> x mod 64 \<and> x mod 64 < h"
proof -
  have "x = q * 64 + x mod 64" using assms(1) div_mult_mod_eq [of x 64] by simp
  with assms(2-5) show ?thesis by linarith
qed

lemma digits3:
  fixes cp :: nat
  assumes "2048 \<le> cp" "cp < 65536" "\<not> (55296 \<le> cp \<and> cp \<le> 57343)"
  shows "cp div 4096 < 16"
    and "cp div 4096 = 0 \<longrightarrow> 32 \<le> cp div 64 mod 64"
    and "cp div 4096 = 13 \<longrightarrow> cp div 64 mod 64 < 32"
    and "(cp div 4096 * 64 + cp div 64 mod 64) * 64 + cp mod 64 = cp"
proof -
  define x where "x = cp div 64"
  have x64: "cp div 4096 = x div 64"
    using div_mult2_eq [of cp 64 64] by (simp add: x_def)
  from assms(2) show "cp div 4096 < 16" by (intro less_mult_imp_div_less) simp
  have lo: "32 \<le> x" using div_le_mono [OF assms(1), of 64] by (simp add: x_def)
  show "cp div 4096 = 0 \<longrightarrow> 32 \<le> cp div 64 mod 64"
  proof
    assume "cp div 4096 = 0"
    then have "x div 64 = 0" by (simp add: x64)
    then have "x mod 64 = x" using div_mult_mod_eq [of x 64] by simp
    with lo show "32 \<le> cp div 64 mod 64" by (simp add: x_def)
  qed
  show "cp div 4096 = 13 \<longrightarrow> cp div 64 mod 64 < 32"
  proof
    assume a: "cp div 4096 = 13"
    then have q: "x div 64 = 13" by (simp add: x64)
    have c: "cp = cp div 4096 * 4096 + cp mod 4096" by simp
    have "cp mod 4096 < 4096" by simp
    with a c have "53248 \<le> cp" "cp \<le> 57343" by linarith+
    with assms(3) have "cp < 55296" by linarith
    then have "x < 864" unfolding x_def by (intro less_mult_imp_div_less) simp
    moreover have "x = 13 * 64 + x mod 64" using q div_mult_mod_eq [of x 64] by simp
    ultimately have "x mod 64 < 32" by linarith
    then show "cp div 64 mod 64 < 32" by (simp add: x_def)
  qed
  have "x div 64 * 64 + x mod 64 = x" by simp
  moreover have "x * 64 + cp mod 64 = cp" by (simp add: x_def)
  ultimately show "(cp div 4096 * 64 + cp div 64 mod 64) * 64 + cp mod 64 = cp"
    by (simp only: x64 x_def [symmetric])
qed
lemma digits4:
  fixes cp :: nat
  assumes "65536 \<le> cp" "cp < 1114112"
  shows "cp div 262144 < 5"
    and "cp div 262144 = 0 \<longrightarrow> 16 \<le> cp div 4096 mod 64"
    and "cp div 262144 = 4 \<longrightarrow> cp div 4096 mod 64 < 16"
    and "((cp div 262144 * 64 + cp div 4096 mod 64) * 64 + cp div 64 mod 64) * 64 + cp mod 64 = cp"
proof -
  define x where "x = cp div 64"
  define y where "y = cp div 4096"
  have y64: "y = x div 64"
    using div_mult2_eq [of cp 64 64] by (simp add: x_def y_def)
  have z64: "cp div 262144 = y div 64"
    using div_mult2_eq [of cp 4096 64] by (simp add: y_def)
  from assms(2) show "cp div 262144 < 5" by (intro less_mult_imp_div_less) simp
  have lo: "16 \<le> y" using div_le_mono [OF assms(1), of 4096] by (simp add: y_def)
  have hi: "y < 272" using assms(2) unfolding y_def by (intro less_mult_imp_div_less) simp
  show "cp div 262144 = 0 \<longrightarrow> 16 \<le> cp div 4096 mod 64"
  proof
    assume "cp div 262144 = 0"
    then have "y div 64 = 0" by (simp add: z64)
    then have "y mod 64 = y" using div_mult_mod_eq [of y 64] by simp
    with lo show "16 \<le> cp div 4096 mod 64" by (simp add: y_def)
  qed
  show "cp div 262144 = 4 \<longrightarrow> cp div 4096 mod 64 < 16"
  proof
    assume "cp div 262144 = 4"
    then have "y div 64 = 4" by (simp add: z64)
    then have "y = 4 * 64 + y mod 64" using div_mult_mod_eq [of y 64] by simp
    with hi have "y mod 64 < 16" by linarith
    then show "cp div 4096 mod 64 < 16" by (simp add: y_def)
  qed
  have "y div 64 * 64 + y mod 64 = y" by simp
  moreover have "x div 64 * 64 + x mod 64 = x" by simp
  moreover have "x * 64 + cp mod 64 = cp" by (simp add: x_def)
  ultimately show "((cp div 262144 * 64 + cp div 4096 mod 64) * 64 + cp div 64 mod 64) * 64 + cp mod 64 = cp"
    by (simp only: z64 y_def [symmetric] x_def [symmetric] y64 [symmetric])
qed

lemma decoder_utf8_bytes:
  assumes "is_scalar_value cp"
  shows "utf8_decoder utf8_initial (utf8_bytes cp @ rest) = cp # utf8_decoder utf8_initial rest"
proof -
  from assms have hi: "cp < 1114112" and ns: "\<not> (55296 \<le> cp \<and> cp \<le> 57343)"
    by (simp_all add: is_scalar_value_def)
  consider (one) "cp < 128" | (two) "128 \<le> cp" "cp < 2048" | (three) "2048 \<le> cp" "cp < 65536"
    | (four) "65536 \<le> cp"
    by linarith
  then show ?thesis
  proof cases
    case one
    then have "utf8_bytes cp = [cp]" by (simp add: utf8_bytes_def)
    then show ?thesis using decoder1 [OF one, of rest] by (simp del: utf8_decoder.simps)
  next
    case two
    note d = digits2 [OF two]
    have "utf8_bytes cp = [0xC0 + cp div 64, 0x80 + cp mod 64]"
      using two by (simp add: utf8_bytes_def)
    then show ?thesis
      using decoder2 [OF d(1,2), of "cp mod 64" rest] d(3)
      by (simp del: utf8_decoder.simps)
  next
    case three
    note d = digits3 [OF three ns]
    have "utf8_bytes cp = [0xE0 + cp div 4096, 0x80 + cp div 64 mod 64, 0x80 + cp mod 64]"
      using three by (simp add: utf8_bytes_def)
    then show ?thesis
      using decoder3 [OF d(1) _ _ d(2,3), of "cp mod 64" rest] d(4)
      by (simp del: utf8_decoder.simps)
  next
    case four
    note d = digits4 [OF four hi]
    have "utf8_bytes cp = [0xF0 + cp div 262144, 0x80 + cp div 4096 mod 64,
                           0x80 + cp div 64 mod 64, 0x80 + cp mod 64]"
      using four by (simp add: utf8_bytes_def)
    then show ?thesis
      using decoder4 [OF d(1) _ _ _ d(2,3), of "cp div 64 mod 64" "cp mod 64" rest] d(4)
      by (simp del: utf8_decoder.simps)
  qed
qed

lemma decoder_concat:
  "\<forall>cp\<in>set cps. is_scalar_value cp \<Longrightarrow>
     utf8_decoder utf8_initial (concat (map utf8_bytes cps)) = cps"
proof (induction cps)
  case Nil
  show ?case by (simp add: utf8_initial_def)
next
  case (Cons cp cps)
  then show ?case by (simp add: decoder_utf8_bytes del: utf8_decoder.simps)
qed

lemma utf8_bytes_lt256:
  assumes "is_scalar_value cp"
  shows "\<forall>b\<in>set (utf8_bytes cp). b < 256"
proof -
  from assms have hi: "cp < 1114112" by (simp add: is_scalar_value_def)
  have 2: "cp < 2048 \<Longrightarrow> cp div 64 < 32" by (intro less_mult_imp_div_less) simp
  have 3: "cp < 65536 \<Longrightarrow> cp div 4096 < 16" by (intro less_mult_imp_div_less) simp
  have 4: "cp div 262144 < 5" using hi by (intro less_mult_imp_div_less) simp
  have m: "cp mod 64 < 64" "cp div 64 mod 64 < 64" "cp div 4096 mod 64 < 64" by simp_all
  show ?thesis
    unfolding utf8_bytes_def using 2 3 4 m by (auto simp del: mod_less_divisor)
qed

lemma unat_code_unit_lt: "unat (u::code_unit) < 65536"
  using unsigned_less [of u, where ?'a = nat] by simp

lemma is_high_surrogate_unat: "is_high_surrogate u \<longleftrightarrow> 55296 \<le> unat u \<and> unat u \<le> 56319"
  by (simp add: is_high_surrogate_def word_le_nat_alt)

lemma is_low_surrogate_unat: "is_low_surrogate u \<longleftrightarrow> 56320 \<le> unat u \<and> unat u \<le> 57343"
  by (simp add: is_low_surrogate_def word_le_nat_alt)

lemma is_surrogate_unat: "is_surrogate u \<longleftrightarrow> 55296 \<le> unat u \<and> unat u \<le> 57343"
  by (simp add: is_surrogate_def word_le_nat_alt)

lemma surrogate_split:
  "(55296 \<le> (n::nat) \<and> n \<le> 57343) \<longleftrightarrow> (55296 \<le> n \<and> n \<le> 56319) \<or> (56320 \<le> n \<and> n \<le> 57343)"
  by linarith

lemma is_surrogate_high_low: "is_surrogate u \<longleftrightarrow> is_high_surrogate u \<or> is_low_surrogate u"
  unfolding is_surrogate_unat is_high_surrogate_unat is_low_surrogate_unat
  by (rule surrogate_split)

lemma pair_digits:
  fixes h l :: nat
  assumes "55296 \<le> h" "h \<le> 56319" "56320 \<le> l" "l \<le> 57343"
  shows "65536 \<le> 65536 + (h - 55296) * 1024 + (l - 56320)"
    and "65536 + (h - 55296) * 1024 + (l - 56320) < 1114112"
    and "55296 + (65536 + (h - 55296) * 1024 + (l - 56320) - 65536) div 1024 = h"
    and "56320 + (65536 + (h - 55296) * 1024 + (l - 56320) - 65536) mod 1024 = l"
proof -
  define x where "x = h - 55296"
  define y where "y = l - 56320"
  have x: "h = 55296 + x" "x < 1024" using assms(1,2) unfolding x_def by linarith+
  have y: "l = 56320 + y" "y < 1024" using assms(3,4) unfolding y_def by linarith+
  show "65536 \<le> 65536 + (h - 55296) * 1024 + (l - 56320)" by simp
  from x y show "65536 + (h - 55296) * 1024 + (l - 56320) < 1114112" by simp
  from x y show "55296 + (65536 + (h - 55296) * 1024 + (l - 56320) - 65536) div 1024 = h" by simp
  from x y show "56320 + (65536 + (h - 55296) * 1024 + (l - 56320) - 65536) mod 1024 = l" by simp
qed

lemma unit_code_point_scalar: "is_scalar_value (unit_code_point u)"
proof (cases "is_surrogate u")
  case True
  then show ?thesis by (simp add: unit_code_point_def is_scalar_value_def)
next
  case False
  then have "\<not> (55296 \<le> unat u \<and> unat u \<le> 57343)" by (simp add: is_surrogate_unat)
  moreover have "unat u < 1114112" using unat_code_unit_lt [of u] by linarith
  ultimately show ?thesis using False by (simp add: unit_code_point_def is_scalar_value_def)
qed

lemma pair_code_point_scalar:
  assumes "is_high_surrogate u" "is_low_surrogate v"
  shows "is_scalar_value (pair_code_point u v)" and "65536 \<le> pair_code_point u v"
proof -
  from assms have b: "55296 \<le> unat u" "unat u \<le> 56319" "56320 \<le> unat v" "unat v \<le> 57343"
    by (simp_all add: is_high_surrogate_unat is_low_surrogate_unat)
  note d = pair_digits [OF b]
  from d(1) show "65536 \<le> pair_code_point u v" by (simp add: pair_code_point_def)
  with d(2) show "is_scalar_value (pair_code_point u v)"
    by (simp add: pair_code_point_def is_scalar_value_def)
qed

lemma scalar_values_scalar: "\<forall>cp\<in>set (scalar_values s). is_scalar_value cp"
  by (induction s rule: scalar_values.induct)
     (simp_all add: unit_code_point_scalar pair_code_point_scalar)

lemma code_units_unit:
  assumes "\<not> is_surrogate u"
  shows "code_units (unit_code_point u) = [u]"
  using assms unat_code_unit_lt [of u] by (simp add: code_units_def unit_code_point_def)

lemma code_units_pair:
  assumes "is_high_surrogate u" "is_low_surrogate v"
  shows "code_units (pair_code_point u v) = [u, v]"
proof -
  from assms have b: "55296 \<le> unat u" "unat u \<le> 56319" "56320 \<le> unat v" "unat v \<le> 57343"
    by (simp_all add: is_high_surrogate_unat is_low_surrogate_unat)
  note d = pair_digits [OF b]
  from d(1) have "\<not> pair_code_point u v < 65536" by (simp add: pair_code_point_def)
  then have "code_units (pair_code_point u v) =
      [of_nat (55296 + (pair_code_point u v - 65536) div 1024),
       of_nat (56320 + (pair_code_point u v - 65536) mod 1024)]"
    by (simp add: code_units_def)
  also have "\<dots> = [of_nat (unat u), of_nat (unat v)]"
    by (simp only: pair_code_point_def d(3,4))
  finally show ?thesis by simp
qed

lemma code_units_scalar_values:
  "isWellFormed s \<Longrightarrow> concat (map code_units (scalar_values s)) = s"
proof (induction s rule: scalar_values.induct)
  case (1 u v r)
  show ?case
  proof (cases "is_high_surrogate u")
    case True
    with 1 show ?thesis by (simp add: code_units_pair)
  next
    case False
    with "1.prems" have "\<not> is_surrogate u" and "isWellFormed (v # r)"
      by (simp_all add: is_surrogate_high_low)
    with False "1.IH"(2) show ?thesis by (simp add: code_units_unit)
  qed
next
  case (2 u)
  then show ?case by (simp add: code_units_unit)
qed simp



lemma utf8_stream_lt256:
  "\<forall>cp\<in>set cps. is_scalar_value cp \<Longrightarrow> \<forall>b\<in>set (concat (map utf8_bytes cps)). b < 256"
  using utf8_bytes_lt256 by auto

lemma decode_encode_scalar_values:
  "utf8_decoder utf8_initial (map unat (TextEncoder_encode s)) = scalar_values s"
proof -
  note sc = scalar_values_scalar [of s]
  have "map unat (TextEncoder_encode s) = concat (map utf8_bytes (scalar_values s))"
    unfolding TextEncoder_encode_def
    by (rule map_unat_of_nat_byte) (rule utf8_stream_lt256 [OF sc])
  then show ?thesis by (simp only: decoder_concat [OF sc])
qed


lemma text_round_trip_BOM:
  assumes "isWellFormed (0xFEFF # s)"
  shows "TextDecoder_decode (TextEncoder_encode (0xFEFF # s)) = s"
proof -
  have ns: "\<not> is_high_surrogate 0xFEFF" "\<not> is_low_surrogate 0xFEFF" "\<not> is_surrogate 0xFEFF"
    by (simp_all add: is_high_surrogate_def is_low_surrogate_def is_surrogate_def)
  have u: "unit_code_point 0xFEFF = 0xFEFF" by (simp add: unit_code_point_def ns)
  have sv: "scalar_values (0xFEFF # s) = 0xFEFF # scalar_values s"
    by (cases s) (simp_all add: ns u)
  from assms have wf: "isWellFormed s" by (cases s) (simp_all add: ns)
  show ?thesis
    by (simp add: TextDecoder_decode_def decode_encode_scalar_values sv strip_bom_def
        code_units_scalar_values [OF wf])
qed

lemma TextEncoder_ascii:
  "\<forall>u\<in>set s. u < 0x80 \<Longrightarrow> TextEncoder_encode s = map ucast s"
proof -
  have unit: "unit_code_point u = unat u \<and> \<not> is_high_surrogate u \<and> unat u < 128" if "u < 0x80" for u
    using that by (simp add: unit_code_point_def is_surrogate_def is_high_surrogate_def
        word_less_nat_alt word_le_nat_alt)
  have cast: "(of_nat (unat u) :: byte) = ucast u" for u :: code_unit
    by transfer simp
  assume "\<forall>u\<in>set s. u < 0x80"
  then have "map of_nat (concat (map utf8_bytes (scalar_values s))) = (map ucast s :: byte list)"
  proof (induction s rule: scalar_values.induct)
    case (1 u v r)
    then have "u < 0x80" by simp
    from unit [OF this] 1 show ?case by (simp add: utf8_bytes_def cast)
  next
    case (2 u)
    then have "u < 0x80" by simp
    from unit [OF this] show ?case by (simp add: utf8_bytes_def cast)
  qed simp
  then show ?thesis by (simp add: TextEncoder_encode_def)
qed

section \<open>The public functions, unfolded\<close>

lemma length_digest_bytes: "length (digest_bytes w) = 32"
  by (simp add: digest_bytes_def)

lemma importKey_digest: "importKey_AES_GCM (digest_bytes w) = Fulfilled (digest_bytes w)"
  by (simp add: importKey_AES_GCM_def length_digest_bytes)

lemma hash_unfold:
  "hash E text slt =
     (case pbkdf2_import E (TextEncoder_encode text) of
        Never \<Rightarrow> Pending
      | Failed \<Rightarrow> Rejected DataError
      | Done u \<Rightarrow>
          (case b642u8a slt of
             Inl e \<Rightarrow> Rejected e
           | Inr salt_bytes \<Rightarrow>
               (case pbkdf2_hmac E SHA_512 (TextEncoder_encode text) salt_bytes 1000 64 of
                  Done bits \<Rightarrow>
                    (if argument_limit E < length bits then Rejected RangeError
                     else Fulfilled (base64_encode bits))
                | Failed \<Rightarrow> Rejected OperationError
                | Never \<Rightarrow> Pending)))"
  by (simp add: hash_def await_def try_call_def importKey_PBKDF2_def deriveBits_PBKDF2_def
      u8a2b64_eq split: settled.splits sum.splits)

lemma decrypt_unfold:
  "decrypt E c i secret =
     (case b642u8a i of
        Inl e \<Rightarrow> Rejected e
      | Inr nonce \<Rightarrow>
          (case b642u8a c of
             Inl e \<Rightarrow> Rejected e
           | Inr data \<Rightarrow>
               (case aes_gcm_decrypt E (derived_key E secret) nonce data of
                  None \<Rightarrow> Rejected OperationError
                | Some pt \<Rightarrow> Fulfilled (TextDecoder_decode pt))))"
  by (simp add: decrypt_def await_def try_call_def digest_SHA256_def importKey_digest
      decrypt_AES_GCM_def derived_key_def split: sum.splits option.splits)

lemma encrypt_unfold:
  "encrypt E plaintext secret g =
     (case aes_gcm_encrypt E (derived_key E secret) (map g [0..<64]) (TextEncoder_encode plaintext) of
        None \<Rightarrow> Rejected OperationError
      | Some ct \<Rightarrow>
          (if argument_limit E < 64 \<or> argument_limit E < length ct then Rejected RangeError
           else Fulfilled \<lparr>iv = base64_encode (map g [0..<64]), ciphertext = base64_encode ct\<rparr>),
      (\<lambda>k. g (64 + k)))"
  by (simp add: encrypt_def Let_def await_def try_call_def digest_SHA256_def importKey_digest
      encrypt_AES_GCM_def derived_key_def getRandomValues_def u8a2b64_eq split: option.splits)

lemma salt_unfold:
  "salt E g = (if argument_limit E < 64 then Inl RangeError
               else Inr (base64_encode (map g [0..<64])), (\<lambda>k. g (64 + k)))"
  by (simp add: salt_def getRandomValues_def u8a2b64_eq)

lemma TextEncoder_encode_empty: "TextEncoder_encode [] = []"
  by (simp add: TextEncoder_encode_def)

lemma length_base64_encode_64: "length bits = 64 \<Longrightarrow> length (base64_encode bits) = 88"
  by (simp add: base64_encode_def length_sextets)

subsection \<open>Facts about the small engine\<close>

lemma demo_limit: "argument_limit demo_engine = 125000"
  by (simp add: demo_engine_def)

lemma length_demo_encrypt: "length (demo_encrypt key nonce msg) = length msg + 16"
  by (simp add: demo_encrypt_def demo_tag_def)


lemma demo_aes_gcm:
  "aes_gcm_encrypt demo_engine key nonce msg = Some (demo_encrypt key nonce msg)"
  "aes_gcm_decrypt demo_engine = demo_decrypt"
  by (simp_all add: demo_engine_def)

lemma demo_import: "pbkdf2_import demo_engine keyData = Done ()"
  by (simp add: demo_engine_def)

lemma encode_hi: "TextEncoder_encode (js ''hi'') = [0x68, 0x69]"
  by (simp add: TextEncoder_ascii js_def)

lemma encode_hello: "TextEncoder_encode (js ''hello'') = [0x68, 0x65, 0x6C, 0x6C, 0x6F]"
  by (simp add: TextEncoder_ascii js_def)

lemma decode_hi: "TextDecoder_decode [0x68, 0x69] = js ''hi''"
  by (simp add: TextDecoder_decode_def utf8_lead_def utf8_initial_def strip_bom_def code_units_def
      js_def)

lemma demo_key123:
  "derived_key demo_engine (js ''key123'') =
     [0, 0, 0, 0, 0, 0, 0, 0, 0, 0, 0, 0, 0, 0, 0, 0, 0, 0, 0, 0, 0, 0, 0, 0, 0, 0, 0, 0, 0, 0, 0, 84]"
proof -
  have "TextEncoder_encode (js ''key123'') = [0x6B, 0x65, 0x79, 0x31, 0x32, 0x33]"
    by (simp add: TextEncoder_ascii js_def)
  moreover have "demo_sum [0x6B, 0x65, 0x79, 0x31, 0x32, 0x33] = 84" by code_simp
  moreover have "digest_bytes (ucast (84 :: byte)) =
     [0, 0, 0, 0, 0, 0, 0, 0, 0, 0, 0, 0, 0, 0, 0, 0, 0, 0, 0, 0, 0, 0, 0, 0, 0, 0, 0, 0, 0, 0, 0, 84]"
    by (simp add: digest_bytes_def upt_rec)
  ultimately show ?thesis by (simp add: derived_key_def demo_engine_def)
qed


lemma demo_hi_encrypted:
  "aes_gcm_encrypt demo_engine (derived_key demo_engine (js ''key123'')) [0x41]
      (TextEncoder_encode (js ''hi''))
   = Some [75, 74, 242, 242, 242, 242, 242, 242, 242, 242, 242, 242, 242, 242, 242, 242, 242, 242]"
proof -
  have "demo_encrypt
     [0, 0, 0, 0, 0, 0, 0, 0, 0, 0, 0, 0, 0, 0, 0, 0, 0, 0, 0, 0, 0, 0, 0, 0, 0, 0, 0, 0, 0, 0, 0, 84]
     [0x41] [0x68, 0x69]
     = [75, 74, 242, 242, 242, 242, 242, 242, 242, 242, 242, 242, 242, 242, 242, 242, 242, 242]"
    by code_simp
  then show ?thesis by (simp only: demo_aes_gcm demo_key123 encode_hi)
qed

lemma encode_hi_encrypted:
  "base64_encode [75, 74, 242, 242, 242, 242, 242, 242, 242, 242, 242, 242, 242, 242, 242, 242, 242, 242]
   = js ''S0ry8vLy8vLy8vLy8vLy8vLy''"
  by code_simp

lemma decode_hi_encrypted:
  "b642u8a (js ''S0ry8vLy8vLy8vLy8vLy8vLy'') =
     Inr [75, 74, 242, 242, 242, 242, 242, 242, 242, 242, 242, 242, 242, 242, 242, 242, 242, 242]"
  by code_simp

lemma demo_rng_salt:
  "base64_encode (map demo_rng [0..<64]) =
     js ''AAECAwQFBgcICQoLDA0ODxAREhMUFRYXGBkaGxwdHh8gISIjJCUmJygpKissLS4vMDEyMzQ1Njc4OTo7PD0+Pw==''"
  by code_simp

section \<open>The claims\<close>

subsection \<open>Encoding helpers\<close>

text \<open>
  C6 (as amended). Within the engine's limit on the arguments of a call, decoding what
  \<^verbatim>\<open>u8a2b64\<close> encoded gives the bytes back: for every byte sequence no longer than the limit.
  And encoding what \<^verbatim>\<open>b642u8a\<close> decoded gives the string back for every canonical standard
  base 64 string (one with its padding and with zero bits where the last character carries
  bits outside the last byte) whose bytes are no more than the limit.
\<close>

theorem base64_round_trip:
  "(length b \<le> n \<longrightarrow> (\<exists>s. u8a2b64 n b = Inr s \<and> b642u8a s = Inr b)) \<and>
   (canonical_base64 s \<longrightarrow>
      (\<exists>b'. b642u8a s = Inr b' \<and> (length b' \<le> n \<longrightarrow> u8a2b64 n b' = Inr s)))"
  using b642u8a_base64_encode [of b] canonical_encode_decode [of s]
  by (auto simp: u8a2b64_eq)

text \<open>
  The string \<^verbatim>\<open>/+8=\<close> is canonical; it decodes to the two bytes \<^verbatim>\<open>0xFF 0xEF\<close>, which encode
  to it again.
\<close>

theorem base64_round_trip_witness:
  "canonical_base64 (js ''/+8='') \<and>
   b642u8a (js ''/+8='') = Inr [0xFF, 0xEF] \<and>
   u8a2b64 125000 [0xFF, 0xEF] = Inr (js ''/+8='')"
proof -
  have c: "canonical_base64 (js ''/+8='')" by code_simp
  have d: "b642u8a (js ''/+8='') = Inr [0xFF, 0xEF]" by code_simp
  have l: "length [0xFF, 0xEF :: byte] \<le> 125000" by simp
  from base64_round_trip [of "[0xFF, 0xEF]" 125000 "js ''/+8=''"] c d l show ?thesis by auto
qed

text \<open>
  As stated, for every standard base 64 string, the second half of C6 fails: \<^verbatim>\<open>QR==\<close> is
  one (alphabet and padding are right), \<^verbatim>\<open>atob\<close> ignores the four low bits of \<^verbatim>\<open>R\<close> and
  gives the byte \<^verbatim>\<open>0x41\<close>, which encodes to \<^verbatim>\<open>QQ==\<close>.
\<close>

theorem noncanonical_base64_counterexample:
  "is_base64 (js ''QR=='') \<and> b642u8a (js ''QR=='') = Inr [0x41] \<and>
   u8a2b64 125000 [0x41] = Inr (js ''QQ=='') \<and> js ''QQ=='' \<noteq> js ''QR==''"
proof -
  have 1: "is_base64 (js ''QR=='')" by code_simp
  have 2: "b642u8a (js ''QR=='') = Inr [0x41]" by code_simp
  have "base64_encode [0x41] = js ''QQ==''" by code_simp
  then have 3: "u8a2b64 125000 [0x41] = Inr (js ''QQ=='')" by (simp add: u8a2b64_eq)
  have 4: "js ''QQ=='' \<noteq> js ''QR==''" by code_simp
  from 1 2 3 4 show ?thesis by blast
qed

text \<open>Beyond the limit the spread call throws, and \<^verbatim>\<open>u8a2b64\<close> with it.\<close>

lemma u8a2b64_beyond_limit: "n < length b \<Longrightarrow> u8a2b64 n b = Inl RangeError"
  by (simp add: u8a2b64_eq)

subsection \<open>Encryption and decryption\<close>







text \<open>
  What \<^verbatim>\<open>encrypt\<close> does when the ciphertext fits the engine's limit on the arguments of a
  call: the nonce is the next 64 bytes of the random source, which the call consumes; the
  key is the 32 bytes of the SHA-256 digest of the encoded secret; the result holds the
  base 64 strings of the nonce and of the engine's AES-GCM encryption of the encoded
  plaintext under that key and nonce, and the first decodes to the 64 bytes of the nonce.
\<close>

lemma encrypt_result:
  assumes "aes_gcm_encrypt E (derived_key E secret) (map g [0..<64]) (TextEncoder_encode plaintext)
           = Some ct"
    and "64 \<le> argument_limit E" and "length ct \<le> argument_limit E"
  shows "let nonce = map g [0..<64];
             r = \<lparr>iv = base64_encode nonce, ciphertext = base64_encode ct\<rparr>
         in encrypt E plaintext secret g = (Fulfilled r, (\<lambda>k. g (64 + k))) \<and>
            length nonce = 64 \<and>
            derived_key E secret = digest_bytes (sha256 E (TextEncoder_encode secret)) \<and>
            length (derived_key E secret) = 32 \<and>
            is_base64 (iv r) \<and> is_base64 (ciphertext r) \<and> b642u8a (iv r) = Inr nonce"
  using assms
  by (simp add: Let_def encrypt_unfold derived_key_def length_digest_bytes
      is_base64_base64_encode b642u8a_base64_encode not_less [symmetric])

text \<open>On every engine, a ciphertext beyond the limit is lost.\<close>

lemma encrypt_beyond_limit:
  assumes "aes_gcm_encrypt E (derived_key E secret) (map g [0..<64]) (TextEncoder_encode plaintext)
           = Some ct"
    and "argument_limit E < length ct"
  shows "fst (encrypt E plaintext secret g) = Rejected RangeError"
  using assms by (simp add: encrypt_unfold)

text \<open>
  C4. The claim is that \<^verbatim>\<open>encrypt\<close> returns its pair for every plaintext. It does not:
  \<^verbatim>\<open>String.fromCharCode(...u8a)\<close> in \<^verbatim>\<open>u8a2b64\<close> passes one argument for each byte of the
  ciphertext. On an engine that accepts 125000 arguments, a plaintext of 200000 letters
  \<^verbatim>\<open>a\<close> is encrypted and the result then lost: the promise is rejected with \<^verbatim>\<open>RangeError\<close>.
\<close>

theorem encrypt_long_plaintext_rejected:
  "fst (encrypt demo_engine (replicate 200000 0x61) (js ''key123'') demo_rng) = Rejected RangeError"
proof -
  have "\<forall>u\<in>set (replicate 200000 (0x61 :: code_unit)). u < 0x80" by simp
  then have "TextEncoder_encode (replicate 200000 0x61) = map ucast (replicate 200000 (0x61 :: code_unit))"
    by (rule TextEncoder_ascii)
  then have "length (TextEncoder_encode (replicate 200000 0x61)) = 200000" by simp
  then show ?thesis
    by (simp add: encrypt_unfold demo_aes_gcm length_demo_encrypt demo_limit)
qed

text \<open>
  Two calls of \<^verbatim>\<open>encrypt\<close>, one after the other, take their nonces from consecutive parts of
  the random source: the first 64 bytes and the next 64. With the same plaintext and secret
  the two results have the same iv exactly when the source gave the same 64 bytes twice.
  How unlikely that is is a property of the source, of which the model says nothing.
\<close>

lemma base64_encode_inj:
  assumes "base64_encode a = base64_encode b"
  shows "a = b"
proof -
  have "Inr a = b642u8a (base64_encode a)" by (simp only: b642u8a_base64_encode)
  also have "\<dots> = b642u8a (base64_encode b)" by (simp only: assms)
  also have "\<dots> = Inr b" by (simp only: b642u8a_base64_encode)
  finally show ?thesis by (simp only: sum.inject)
qed

lemma encrypt_twice:
  assumes "fst (encrypt E p secret g) = Fulfilled r1"
    and "fst (encrypt E p secret (snd (encrypt E p secret g))) = Fulfilled r2"
  shows "iv r1 = iv r2 \<longleftrightarrow> map g [0..<64] = map (\<lambda>k. g (64 + k)) [0..<64]"
proof -
  from assms(1) have 1: "iv r1 = base64_encode (map g [0..<64])"
    by (auto simp: encrypt_unfold split: if_splits option.splits)
  from assms(2) have 2: "iv r2 = base64_encode (map (\<lambda>k. g (64 + k)) [0..<64])"
    by (auto simp: encrypt_unfold split: if_splits option.splits)
  show ?thesis
    unfolding 1 2
  proof
    assume "base64_encode (map g [0..<64]) = base64_encode (map (\<lambda>k. g (64 + k)) [0..<64])"
    then show "map g [0..<64] = map (\<lambda>k. g (64 + k)) [0..<64]" by (rule base64_encode_inj)
  next
    assume "map g [0..<64] = map (\<lambda>k. g (64 + k)) [0..<64]"
    then show "base64_encode (map g [0..<64]) = base64_encode (map (\<lambda>k. g (64 + k)) [0..<64])"
      by (rule arg_cong)
  qed
qed

subsection \<open>Hashing\<close>

text \<open>
  C3. For every non-empty text and every standard base 64 salt, the salt decodes, and once
  the engine has accepted the encoded text as key material and its PBKDF2, called with
  HMAC-SHA-512, that key, the decoded salt, 1000 iterations and a length of 64 bytes, has
  returned 64 bytes, \<^verbatim>\<open>hash\<close> returns the base 64 string of exactly these bytes (88
  characters, which decode to them). \<^verbatim>\<open>hash\<close> is a function of the engine, the text and the
  salt alone: it reads no random source, so two calls with the same arguments give the same
  result.
\<close>

theorem hash_is_pbkdf2:
  assumes "text \<noteq> []" and "is_base64 slt"
    and "pbkdf2_import E (TextEncoder_encode text) = Done ()"
    and "64 \<le> argument_limit E"
  shows "\<exists>salt_bytes. b642u8a slt = Inr salt_bytes \<and>
           (\<forall>bits. pbkdf2_hmac E SHA_512 (TextEncoder_encode text) salt_bytes 1000 64 = Done bits \<and>
                    length bits = 64 \<longrightarrow>
              hash E text slt = Fulfilled (base64_encode bits) \<and>
              length (base64_encode bits) = 88 \<and> b642u8a (base64_encode bits) = Inr bits)"
proof -
  from is_base64_accepted(2) [OF assms(2)] obtain vs
    where "b64_values (forgiving_strip slt) = Some vs" and acc: "accepted_by_atob slt"
    by (auto simp: accepted_by_atob_def)
  then have "b642u8a slt = Inr (map of_nat (octets vs))"
    by (intro b642u8a_accepted)
  with assms(3,4) show ?thesis
    by (auto simp: hash_unfold length_base64_encode_64 b642u8a_base64_encode)
qed

text \<open>The text \<^verbatim>\<open>hello\<close> and the salt \<^verbatim>\<open>Zm9vYmFy\<close>, which decodes to the bytes of \<^verbatim>\<open>foobar\<close>.\<close>

theorem hash_is_pbkdf2_witness:
  "b642u8a (js ''Zm9vYmFy'') = Inr [0x66, 0x6F, 0x6F, 0x62, 0x61, 0x72] \<and>
   hash demo_engine (js ''hello'') (js ''Zm9vYmFy'') =
     Fulfilled (js ''w8TFxsfIycrLzM3Oz9DR0tPU1dbX2Nna29zd3t/g4eLj5OXm5+jp6uvs7e7v8PHy8/T19vf4+fr7/P3+/wABAg=='')"
proof -
  let ?bits = "map (\<lambda>k. demo_sum [0x68, 0x65, 0x6C, 0x6C, 0x6F, 0x66, 0x6F, 0x6F, 0x62, 0x61, 0x72]
                         + of_nat k) [0..<64] :: byte list"
  have t: "js ''hello'' \<noteq> []" by (simp add: js_def)
  have b: "is_base64 (js ''Zm9vYmFy'')" by code_simp
  have l: "64 \<le> argument_limit demo_engine" by (simp add: demo_limit)
  have d: "b642u8a (js ''Zm9vYmFy'') = Inr [0x66, 0x6F, 0x6F, 0x62, 0x61, 0x72]" by code_simp
  have p: "pbkdf2_hmac demo_engine SHA_512 (TextEncoder_encode (js ''hello''))
             [0x66, 0x6F, 0x6F, 0x62, 0x61, 0x72] 1000 64 = Done ?bits"
    by (simp add: demo_engine_def encode_hello)
  have n: "length ?bits = 64" by simp
  have s: "base64_encode ?bits =
     js ''w8TFxsfIycrLzM3Oz9DR0tPU1dbX2Nna29zd3t/g4eLj5OXm5+jp6uvs7e7v8PHy8/T19vf4+fr7/P3+/wABAg==''"
    by code_simp
  from hash_is_pbkdf2 [OF t b demo_import l] obtain salt_bytes
    where sb: "b642u8a (js ''Zm9vYmFy'') = Inr salt_bytes"
      and h: "\<And>bits. pbkdf2_hmac demo_engine SHA_512 (TextEncoder_encode (js ''hello''))
                  salt_bytes 1000 64 = Done bits \<Longrightarrow> length bits = 64 \<Longrightarrow>
                hash demo_engine (js ''hello'') (js ''Zm9vYmFy'') = Fulfilled (base64_encode bits)"
    by blast
  from sb d have "salt_bytes = [0x66, 0x6F, 0x6F, 0x62, 0x61, 0x72]" by simp
  with h [of ?bits] p n
  have "hash demo_engine (js ''hello'') (js ''Zm9vYmFy'') = Fulfilled (base64_encode ?bits)"
    by simp
  with d s show ?thesis by simp
qed

text \<open>
  C5 (as amended). \<^verbatim>\<open>hash\<close> has no check of its own on the text. With the empty text it
  hands the empty byte sequence to the engine as key material, and what happens is the
  engine's doing: the promise never settles when the engine never settles, it is rejected
  with \<^verbatim>\<open>DataError\<close> when the engine refuses the key material, and otherwise \<^verbatim>\<open>hash\<close> goes
  on as for any text, to the base 64 string of the derived bytes when the salt decodes and
  the derivation succeeds.
\<close>

theorem hash_empty_text:
  "hash E [] slt =
     (case pbkdf2_import E [] of
        Never \<Rightarrow> Pending
      | Failed \<Rightarrow> Rejected DataError
      | Done u \<Rightarrow>
          (case b642u8a slt of
             Inl e \<Rightarrow> Rejected e
           | Inr salt_bytes \<Rightarrow>
               (case pbkdf2_hmac E SHA_512 [] salt_bytes 1000 64 of
                  Done bits \<Rightarrow>
                    (if argument_limit E < length bits then Rejected RangeError
                     else Fulfilled (base64_encode bits))
                | Failed \<Rightarrow> Rejected OperationError
                | Never \<Rightarrow> Pending)))"
  unfolding hash_unfold TextEncoder_encode_empty by (rule refl)

text \<open>On an engine that never settles on empty key material, \<^verbatim>\<open>hash\<close> never settles.\<close>

theorem hash_empty_text_witness:
  "hash stalling_engine [] (js ''Zm9vYmFy'') = Pending"
proof -
  have "pbkdf2_import stalling_engine [] = Never" by (simp add: stalling_engine_def)
  with hash_empty_text [of stalling_engine "js ''Zm9vYmFy''"] show ?thesis by simp
qed

text \<open>
  As stated, that \<^verbatim>\<open>hash\<close> fails on the empty text and returns no derived hash, C5 fails on
  an engine that accepts empty key material, as the Web Cryptography standard prescribes.
\<close>

theorem hash_empty_text_counterexample:
  "hash demo_engine [] (js ''Zm9vYmFy'') =
     Fulfilled (js ''NDU2Nzg5Ojs8PT4/QEFCQ0RFRkdISUpLTE1OT1BRUlNUVVZXWFlaW1xdXl9gYWJjZGVmZ2hpamtsbW5vcHFycw=='')"
proof -
  let ?bits = "map (\<lambda>k. demo_sum [0x66, 0x6F, 0x6F, 0x62, 0x61, 0x72] + of_nat k) [0..<64]
               :: byte list"
  have d: "b642u8a (js ''Zm9vYmFy'') = Inr [0x66, 0x6F, 0x6F, 0x62, 0x61, 0x72]" by code_simp
  have p: "pbkdf2_hmac demo_engine SHA_512 [] [0x66, 0x6F, 0x6F, 0x62, 0x61, 0x72] 1000 64 = Done ?bits"
    by (simp add: demo_engine_def)
  have s: "base64_encode ?bits =
     js ''NDU2Nzg5Ojs8PT4/QEFCQ0RFRkdISUpLTE1OT1BRUlNUVVZXWFlaW1xdXl9gYWJjZGVmZ2hpamtsbW5vcHFycw==''"
    by code_simp
  show ?thesis
    by (simp add: hash_unfold TextEncoder_encode_empty demo_import d p demo_limit s)
qed

text \<open>
  C9. \<^verbatim>\<open>hash\<close> uses its salt argument through \<^verbatim>\<open>b642u8a\<close> only: two salt strings that decode
  alike (to the same bytes, or both not at all) give the same result.
\<close>

theorem hash_salt_bytes_only:
  "b642u8a salt1 = b642u8a salt2 \<Longrightarrow> hash E text salt1 = hash E text salt2"
  by (simp add: hash_def)

text \<open>\<^verbatim>\<open>QQ==\<close> and \<^verbatim>\<open>QR==\<close> are two strings for the one byte \<^verbatim>\<open>0x41\<close>.\<close>

theorem hash_salt_bytes_only_witness:
  "b642u8a (js ''QQ=='') = b642u8a (js ''QR=='') \<and> js ''QQ=='' \<noteq> js ''QR=='' \<and>
   hash demo_engine (js ''hello'') (js ''QQ=='') = hash demo_engine (js ''hello'') (js ''QR=='')"
proof -
  have h: "b642u8a (js ''QQ=='') = b642u8a (js ''QR=='')" by code_simp
  have n: "js ''QQ=='' \<noteq> js ''QR==''" by code_simp
  from hash_salt_bytes_only [OF h] h n show ?thesis by simp
qed

text \<open>
  C10. Every string \<^verbatim>\<open>salt\<close> returns is a standard base 64 string that decodes to 64 bytes,
  the next 64 of the random source, and \<^verbatim>\<open>hash\<close> with such a salt is not rejected with
  \<^verbatim>\<open>InvalidCharacterError\<close>, whatever the text. (\<^verbatim>\<open>salt\<close> does return a string on every engine
  that accepts a call of 64 arguments.)
\<close>

theorem salt_decodes:
  "(64 \<le> argument_limit E \<longrightarrow> (\<exists>s. fst (salt E g) = Inr s)) \<and>
   (fst (salt E g) = Inr s \<longrightarrow>
      is_base64 s \<and> b642u8a s = Inr (map g [0..<64]) \<and> length (map g [0..<64]) = 64 \<and>
      hash E text s \<noteq> Rejected InvalidCharacterError)"
  by (auto simp: salt_unfold is_base64_base64_encode b642u8a_base64_encode hash_unfold
      split: settled.splits if_splits)

theorem salt_decodes_witness:
  "fst (salt demo_engine demo_rng) =
     Inr (js ''AAECAwQFBgcICQoLDA0ODxAREhMUFRYXGBkaGxwdHh8gISIjJCUmJygpKissLS4vMDEyMzQ1Njc4OTo7PD0+Pw=='') \<and>
   is_base64 (js ''AAECAwQFBgcICQoLDA0ODxAREhMUFRYXGBkaGxwdHh8gISIjJCUmJygpKissLS4vMDEyMzQ1Njc4OTo7PD0+Pw=='') \<and>
   b642u8a (js ''AAECAwQFBgcICQoLDA0ODxAREhMUFRYXGBkaGxwdHh8gISIjJCUmJygpKissLS4vMDEyMzQ1Njc4OTo7PD0+Pw=='')
     = Inr (map demo_rng [0..<64]) \<and>
   hash demo_engine (js ''hello'')
     (js ''AAECAwQFBgcICQoLDA0ODxAREhMUFRYXGBkaGxwdHh8gISIjJCUmJygpKissLS4vMDEyMzQ1Njc4OTo7PD0+Pw=='')
     \<noteq> Rejected InvalidCharacterError"
proof -
  have r: "fst (salt demo_engine demo_rng) =
     Inr (js ''AAECAwQFBgcICQoLDA0ODxAREhMUFRYXGBkaGxwdHh8gISIjJCUmJygpKissLS4vMDEyMzQ1Njc4OTo7PD0+Pw=='')"
    by (simp add: salt_unfold demo_limit demo_rng_salt)
  from salt_decodes [of demo_engine demo_rng
      "js ''AAECAwQFBgcICQoLDA0ODxAREhMUFRYXGBkaGxwdHh8gISIjJCUmJygpKissLS4vMDEyMzQ1Njc4OTo7PD0+Pw==''"
      "js ''hello''"] r
  show ?thesis by simp
qed

subsection \<open>Strings that are not base 64\<close>

text \<open>
  C7 (as amended). A string \<^verbatim>\<open>atob\<close> does not accept (whitespace removed, and padding when
  the length allows it, a character outside the alphabet is left or the length is 1 modulo
  4) is not standard base 64, and \<^verbatim>\<open>decrypt\<close> is rejected with \<^verbatim>\<open>InvalidCharacterError\<close> when
  it is given as iv, and when it is given as ciphertext; so is \<^verbatim>\<open>hash\<close> when it is given as
  salt, once the engine has accepted the key material.
\<close>

theorem rejected_base64_input:
  assumes "\<not> accepted_by_atob s"
  shows "\<not> is_base64 s \<and>
         decrypt E c s secret = Rejected InvalidCharacterError \<and>
         decrypt E s i secret = Rejected InvalidCharacterError \<and>
         (pbkdf2_import E (TextEncoder_encode text) = Done () \<longrightarrow>
            hash E text s = Rejected InvalidCharacterError)"
proof -
  note r = b642u8a_rejected [OF assms]
  have "\<not> is_base64 s" using assms is_base64_accepted(2) by blast
  moreover have "decrypt E c s secret = Rejected InvalidCharacterError"
    by (simp add: decrypt_unfold r)
  moreover have "decrypt E s i secret = Rejected InvalidCharacterError"
  proof (cases "b642u8a i")
    case (Inl e)
    with b642u8a_error [OF Inl] show ?thesis by (simp add: decrypt_unfold)
  next
    case (Inr nonce)
    then show ?thesis by (simp add: decrypt_unfold r)
  qed
  moreover have "pbkdf2_import E (TextEncoder_encode text) = Done () \<longrightarrow>
            hash E text s = Rejected InvalidCharacterError"
    by (simp add: hash_unfold r)
  ultimately show ?thesis by blast
qed

text \<open>\<^verbatim>\<open>Zm9v!mFy\<close> has a character outside the alphabet.\<close>

theorem rejected_base64_input_witness:
  "\<not> accepted_by_atob (js ''Zm9v!mFy'') \<and> \<not> is_base64 (js ''Zm9v!mFy'') \<and>
   decrypt demo_engine (js ''S0ry8vLy8vLy8vLy8vLy8vLy'') (js ''Zm9v!mFy'') (js ''key123'')
     = Rejected InvalidCharacterError \<and>
   decrypt demo_engine (js ''Zm9v!mFy'') (js ''QQ=='') (js ''key123'') = Rejected InvalidCharacterError \<and>
   hash demo_engine (js ''hello'') (js ''Zm9v!mFy'') = Rejected InvalidCharacterError"
proof -
  have a: "\<not> accepted_by_atob (js ''Zm9v!mFy'')" by code_simp
  from rejected_base64_input [OF a, of demo_engine "js ''S0ry8vLy8vLy8vLy8vLy8vLy''" "js ''key123''"
      "js ''QQ==''" "js ''hello''"] a demo_import
  show ?thesis by simp
qed

text \<open>
  As stated, for every string that is not standard base 64, C7 fails: \<^verbatim>\<open>QQ\<close> lacks its
  padding, yet \<^verbatim>\<open>atob\<close> decodes it (to the byte \<^verbatim>\<open>0x41\<close>), \<^verbatim>\<open>hash\<close> returns a hash with it as
  salt and \<^verbatim>\<open>decrypt\<close> the plaintext with it as iv.
\<close>

theorem unpadded_base64_counterexample:
  "\<not> is_base64 (js ''QQ'') \<and>
   hash demo_engine (js ''hello'') (js ''QQ'') =
     Fulfilled (js ''HB0eHyAhIiMkJSYnKCkqKywtLi8wMTIzNDU2Nzg5Ojs8PT4/QEFCQ0RFRkdISUpLTE1OT1BRUlNUVVZXWFlaWw=='') \<and>
   decrypt demo_engine (js ''S0ry8vLy8vLy8vLy8vLy8vLy'') (js ''QQ'') (js ''key123'') = Fulfilled (js ''hi'')"
proof -
  let ?bits = "map (\<lambda>k. demo_sum [0x68, 0x65, 0x6C, 0x6C, 0x6F, 0x41] + of_nat k) [0..<64]
               :: byte list"
  have 1: "\<not> is_base64 (js ''QQ'')" by code_simp
  have n: "b642u8a (js ''QQ'') = Inr [0x41]" by code_simp
  have p: "pbkdf2_hmac demo_engine SHA_512 (TextEncoder_encode (js ''hello'')) [0x41] 1000 64 = Done ?bits"
    by (simp add: demo_engine_def encode_hello)
  have s: "base64_encode ?bits =
     js ''HB0eHyAhIiMkJSYnKCkqKywtLi8wMTIzNDU2Nzg5Ojs8PT4/QEFCQ0RFRkdISUpLTE1OT1BRUlNUVVZXWFlaWw==''"
    by code_simp
  have 2: "hash demo_engine (js ''hello'') (js ''QQ'') =
     Fulfilled (js ''HB0eHyAhIiMkJSYnKCkqKywtLi8wMTIzNDU2Nzg5Ojs8PT4/QEFCQ0RFRkdISUpLTE1OT1BRUlNUVVZXWFlaWw=='')"
    by (simp add: hash_unfold demo_import n p demo_limit s)
  have "demo_decrypt
     [0, 0, 0, 0, 0, 0, 0, 0, 0, 0, 0, 0, 0, 0, 0, 0, 0, 0, 0, 0, 0, 0, 0, 0, 0, 0, 0, 0, 0, 0, 0, 84]
     [0x41] [75, 74, 242, 242, 242, 242, 242, 242, 242, 242, 242, 242, 242, 242, 242, 242, 242, 242]
     = Some [0x68, 0x69]" by code_simp
  then have t: "aes_gcm_decrypt demo_engine (derived_key demo_engine (js ''key123'')) [0x41]
             [75, 74, 242, 242, 242, 242, 242, 242, 242, 242, 242, 242, 242, 242, 242, 242, 242, 242]
           = Some [0x68, 0x69]" by (simp only: demo_aes_gcm demo_key123)
  have 3: "decrypt demo_engine (js ''S0ry8vLy8vLy8vLy8vLy8vLy'') (js ''QQ'') (js ''key123'')
           = Fulfilled (js ''hi'')"
    by (simp add: decrypt_unfold n decode_hi_encrypted t decode_hi)
  from 1 2 3 show ?thesis by blast
qed

end
